theory Spec2Isabelle
  imports Main
begin

section \<open>A shallow embedding of tools/subunit-trace.py\<close>

text \<open>
  The script traces a subunit stream: a \<open>Starts\<close> observer writes start lines, and
  \<open>show_outcome\<close> writes one result line per finished test and keeps the module-level
  tallies \<open>FAILS\<close> and \<open>RESULTS\<close>. Python strings are modelled as \<open>string\<close> (a list of
  8-bit characters), Python's unbounded integers as \<open>int\<close>, a \<open>datetime\<close> as the number
  of microseconds on an absolute time line, a raised exception as a value.
\<close>

subsection \<open>Python string primitives used by the script\<close>

text \<open>\<open>s.find(c)\<close> for a one-character \<open>c\<close>: the first index of \<open>c\<close>, or \<open>-1\<close>.\<close>

fun str_find :: "string \<Rightarrow> char \<Rightarrow> int" where
  "str_find [] c = - 1"
| "str_find (x # xs) c =
     (if x = c then 0
      else (let r = str_find xs c in if r < 0 then - 1 else r + 1))"

text \<open>\<open>s.startswith(p)\<close>.\<close>

definition startswith :: "string \<Rightarrow> string \<Rightarrow> bool" where
  "startswith s p = (take (length p) s = p)"

text \<open>\<open>'%d' % n\<close> and \<open>str(n)\<close> for an integer: decimal digits, \<open>-\<close> in front of a negative.\<close>

fun str_nat :: "nat \<Rightarrow> string" where
  "str_nat n =
     (if n < 10 then [''0123456789'' ! n]
      else str_nat (n div 10) @ [''0123456789'' ! (n mod 10)])"

definition fmt_d :: "int \<Rightarrow> string" where
  "fmt_d n = (if n < 0 then CHR ''-'' # str_nat (nat (- n)) else str_nat (nat n))"

text \<open>\<open>'%06d' % n\<close>: the same, padded with zeros after the sign to six characters.\<close>

definition fmt_06d :: "int \<Rightarrow> string" where
  "fmt_06d n =
     (if n < 0
      then CHR ''-'' # replicate (5 - length (str_nat (nat (- n)))) CHR ''0'' @ str_nat (nat (- n))
      else replicate (6 - length (str_nat (nat n))) CHR ''0'' @ str_nat (nat n))"

text \<open>The value of a string of decimal digits, to say what a rendering denotes.\<close>

definition digit_val :: "char \<Rightarrow> nat" where
  "digit_val c = of_char c - 48"

definition dec_value :: "string \<Rightarrow> nat" where
  "dec_value s = foldl (\<lambda>a c. 10 * a + digit_val c) 0 s"

subsection \<open>cleanup_test_name\<close>

text \<open>
  Both rules read the positions of the first opening and the first closing delimiter
  with \<open>find\<close> and cut \<open>name[:tags_start] + name[tags_end + 1:]\<close> when
  \<open>tags_start > 0 and tags_end > tags_start\<close>. The scenario rule works on the result
  of the tag rule. The defaults are \<open>strip_tags=True\<close>, \<open>strip_scenarios=False\<close>.
\<close>

definition cleanup_test_name :: "string \<Rightarrow> bool \<Rightarrow> bool \<Rightarrow> string" where
  "cleanup_test_name name strip_tags strip_scenarios =
     (let name1 =
        (if strip_tags then
           (let tags_start = str_find name CHR ''['';
                tags_end = str_find name CHR '']''
            in if tags_start > 0 \<and> tags_end > tags_start
               then take (nat tags_start) name @ drop (nat (tags_end + 1)) name
               else name)
         else name);
          name2 =
        (if strip_scenarios then
           (let tags_start = str_find name1 CHR ''('';
                tags_end = str_find name1 CHR '')''
            in if tags_start > 0 \<and> tags_end > tags_start
               then take (nat tags_start) name1 @ drop (nat (tags_end + 1)) name1
               else name1)
         else name1)
      in name2)"

subsection \<open>get_duration\<close>

text \<open>
  A timestamp is a \<open>datetime\<close> or \<open>None\<close>; a \<open>datetime\<close> is always truthy, so
  \<open>not start\<close> holds exactly for \<open>None\<close>. The difference of two datetimes is a
  normalised \<open>timedelta\<close>: \<open>0 \<le> seconds < 86400\<close>, \<open>0 \<le> microseconds < 1000000\<close>, and
  the sign is carried by \<open>days\<close>.
\<close>

definition DAY_SECONDS :: int where
  "DAY_SECONDS = 60 * 60 * 24"

record timedelta =
  days :: int
  seconds :: int
  microseconds :: int

definition datetime_sub :: "int \<Rightarrow> int \<Rightarrow> timedelta" where
  "datetime_sub e s =
     \<lparr> days = (e - s) div 86400000000,
       seconds = ((e - s) mod 86400000000) div 1000000,
       microseconds = (e - s) mod 1000000 \<rparr>"

definition get_duration :: "int option \<times> int option \<Rightarrow> string" where
  "get_duration timestamps =
     (case timestamps of
        (None, _) \<Rightarrow> ''''
      | (Some start, None) \<Rightarrow> ''''
      | (Some start, Some end) \<Rightarrow>
          (let delta = datetime_sub end start
           in fmt_d (days delta * DAY_SECONDS + seconds delta) @ ''.'' @
              fmt_06d (microseconds delta) @ ''s''))"

subsection \<open>Exceptions, dictionaries, the external decoders\<close>

text \<open>
  A call either returns or raises; when it raises, the state it had reached is kept,
  because writes and appends made before the exception stay made.
\<close>

datatype error = ValueError | KeyError | UnicodeError

datatype 'a result = Return 'a | Raised error 'a

fun state_of :: "'a result \<Rightarrow> 'a" where
  "state_of (Return a) = a"
| "state_of (Raised e a) = a"

fun bind_result :: "'a result \<Rightarrow> ('a \<Rightarrow> 'a result) \<Rightarrow> 'a result" where
  "bind_result (Return a) f = f a"
| "bind_result (Raised e a) f = Raised e a"

text \<open>
  A \<open>dict\<close> is an association list in insertion order: \<open>d[k] = v\<close> replaces the value of
  an existing key where it stands and adds a new key at the end; \<open>map_of\<close> is the lookup.
\<close>

fun dict_set :: "'k \<Rightarrow> 'v \<Rightarrow> ('k \<times> 'v) list \<Rightarrow> ('k \<times> 'v) list" where
  "dict_set k v [] = [(k, v)]"
| "dict_set k v (p # ps) = (if fst p = k then (k, v) # ps else p # dict_set k v ps)"

definition dict_del :: "'k \<Rightarrow> ('k \<times> 'v) list \<Rightarrow> ('k \<times> 'v) list" where
  "dict_del k d = filter (\<lambda>p. fst p \<noteq> k) d"

text \<open>
  An attachment is a \<open>testtools\<close> \<open>Content\<close>: a content type (type, subtype, parameters)
  and bytes. Parsing a MIME type (\<open>mimeparse.parse_mime_type\<close>), decoding a content to
  text (\<open>Content.as_text\<close>) and \<open>datetime.isoformat\<close> belong to libraries outside the
  repository; the model takes them as parameters, and the first two may raise.
\<close>

record content =
  content_type_type :: string
  content_type_subtype :: string
  content_type_parameters :: "(string \<times> string) list"
  content_bytes :: string

record ext =
  parse_mime_type :: "string \<Rightarrow> error + (string \<times> string \<times> (string \<times> string) list)"
  as_text :: "content \<Rightarrow> error + string"
  isoformat :: "int \<Rightarrow> string"

text \<open>
  What is written to \<open>sys.stdout\<close>, one item for each call of \<open>write\<close>. The start line
  keeps the three arguments of its format string; \<open>render\<close> gives the text written.
\<close>

datatype wr = Text string | StartLine string string string

fun render :: "wr \<Rightarrow> string" where
  "render (Text s) = s"
| "render (StartLine timestr worker tid) =
     timestr @ '': '' @ worker @ tid @ '' [start]'' @ [CHR 0x0A]"

fun is_start :: "string \<Rightarrow> wr \<Rightarrow> bool" where
  "is_start i (Text s) = False"
| "is_start i (StartLine timestr worker tid) = (tid = i)"

subsection \<open>Starts\<close>

text \<open>The keyword arguments of \<open>status\<close> that the script or the record builder read.\<close>

record event =
  test_id :: "string option"
  test_status :: "string option"
  test_tags :: "string list option"
  file_name :: "string option"
  file_bytes :: "string option"
  mime_type :: "string option"
  route_code :: "string option"
  timestamp :: "int option"

record Starts =
  neednewline :: bool
  emitted :: "string set"

text \<open>The tracker once \<open>startTestRun\<close> has set its two fields.\<close>

definition Starts_startTestRun :: Starts where
  "Starts_startTestRun = \<lparr> neednewline = False, emitted = {} \<rparr>"

text \<open>The loop over the tags: the last tag that starts with \<open>worker-\<close> gives the label.\<close>

definition start_worker :: "string list option \<Rightarrow> string" where
  "start_worker tags =
     foldl (\<lambda>worker tag. if startswith tag ''worker-'' then ''('' @ drop 7 tag @ '') '' else worker)
       '''' (case tags of None \<Rightarrow> [] | Some ts \<Rightarrow> ts)"

text \<open>
  \<open>Starts.status\<close>, on the output stream and the tracker's fields. An event whose
  \<open>test_id\<close> is \<open>None\<close> or empty is free-form content: it is decoded and written as it
  is when it has bytes.
\<close>

definition Starts_content :: "ext \<Rightarrow> wr list \<times> Starts \<Rightarrow> event \<Rightarrow> (wr list \<times> Starts) result" where
  "Starts_content X st ev =
     (case file_bytes ev of
        None \<Rightarrow> Return st
      | Some fb \<Rightarrow>
          if fb = [] then Return st
          else
            (let mt = (case mime_type ev of
                         None \<Rightarrow> ''text/plain; charset=utf-8''
                       | Some m \<Rightarrow> if m = [] \<or> m = ''test/plain;charset=utf8''
                                  then ''text/plain; charset=utf-8'' else m)
             in case parse_mime_type X mt of
                  Inl e \<Rightarrow> Raised e st
                | Inr (primary, sub, parameters) \<Rightarrow>
                    (case as_text X \<lparr> content_type_type = primary, content_type_subtype = sub,
                                      content_type_parameters = parameters, content_bytes = fb \<rparr> of
                       Inl e \<Rightarrow> Raised e st
                     | Inr text \<Rightarrow>
                         (let s1 = (if text \<noteq> [] \<and> last text \<notin> {CHR 0x0D, CHR 0x0A}
                                    then (snd st)\<lparr> neednewline := True \<rparr> else snd st)
                          in Return (fst st @ [Text text], s1)))))"

text \<open>
  In the source the \<open>write\<close> of the start line is indented under the \<open>else\<close> of
  \<open>if timestamp\<close>, so it runs only when the event has no timestamp; the string
  \<open>timestr\<close> made from a timestamp is not used. \<open>self._emitted.add\<close> runs in both cases.
\<close>

definition Starts_status :: "ext \<Rightarrow> wr list \<times> Starts \<Rightarrow> event \<Rightarrow> (wr list \<times> Starts) result" where
  "Starts_status X st ev =
     (case test_id ev of
        None \<Rightarrow> Starts_content X st ev
      | Some tid \<Rightarrow>
          if tid = [] then Starts_content X st ev
          else if test_status ev = Some ''inprogress'' \<and> tid \<notin> emitted (snd st) then
            (let out1 = (if neednewline (snd st) then fst st @ [Text [CHR 0x0A]] else fst st);
                 s1 = (if neednewline (snd st) then (snd st)\<lparr> neednewline := False \<rparr> else snd st);
                 worker = start_worker (test_tags ev);
                 out2 = (case timestamp ev of
                           Some ts \<Rightarrow> (let timestr = isoformat X ts in out1)
                         | None \<Rightarrow> (let timestr = [] in out1 @ [StartLine timestr worker tid]))
             in Return (out2, s1\<lparr> emitted := insert tid (emitted s1) \<rparr>))
          else Return st)"

text \<open>The tracker on a sequence of events; an exception ends the run.\<close>

fun Starts_run :: "ext \<Rightarrow> wr list \<times> Starts \<Rightarrow> event list \<Rightarrow> (wr list \<times> Starts) result" where
  "Starts_run X st [] = Return st"
| "Starts_run X st (ev # evs) =
     (case Starts_status X st ev of
        Return st' \<Rightarrow> Starts_run X st' evs
      | Raised e st' \<Rightarrow> Raised e st')"

subsection \<open>find_worker\<close>

text \<open>
  \<open>int(s)\<close> of Python 3 on a string whose characters are the code points below 256.
  White space around the number is dropped: the ASCII white space \<open>\t \n \v \f \r\<close> and
  the space, and the two other white-space code points of this range, \<open>0x85\<close> and
  \<open>0xA0\<close>; the control characters \<open>0x1C\<close> to \<open>0x1F\<close> are not dropped. One sign may
  stand in front, the digits are the ASCII digits and may be grouped by single
  underscores. \<open>None\<close> stands for the \<open>ValueError\<close> that \<open>int\<close> raises.
\<close>

definition py_space :: "char \<Rightarrow> bool" where
  "py_space c = (of_char c \<in> {9, 10, 11, 12, 13, 32, 133, 160 :: nat})"

definition py_strip :: "string \<Rightarrow> string" where
  "py_strip s = rev (dropWhile py_space (rev (dropWhile py_space s)))"

definition is_digit :: "char \<Rightarrow> bool" where
  "is_digit c = (c \<in> set ''0123456789'')"

fun valid_digits :: "string \<Rightarrow> bool" where
  "valid_digits [] = False"
| "valid_digits [c] = is_digit c"
| "valid_digits (c # d # rest) =
     (is_digit c \<and> (if d = CHR ''_'' then rest \<noteq> [] \<and> valid_digits rest else valid_digits (d # rest)))"

definition py_int :: "string \<Rightarrow> int option" where
  "py_int s =
     (let t = py_strip s;
          neg = (t \<noteq> [] \<and> hd t = CHR ''-'');
          body = (if t \<noteq> [] \<and> (hd t = CHR ''-'' \<or> hd t = CHR ''+'') then tl t else t)
      in if valid_digits body
         then Some ((if neg then - 1 else 1) * int (dec_value (filter (\<lambda>c. c \<noteq> CHR ''_'') body)))
         else None)"

text \<open>
  A test result record, the dictionary that \<open>StreamToDict\<close> hands to \<open>show_outcome\<close>.
  The tags are listed in the order in which the set is iterated, the details in the
  order of the dictionary.
\<close>

record test =
  t_id :: string
  t_status :: string
  t_tags :: "string list"
  t_details :: "(string \<times> content) list"
  t_timestamps :: "int option \<times> int option"

text \<open>\<open>find_worker\<close> returns an \<open>int\<close> or the string \<open>'NaN'\<close>.\<close>

datatype worker = Worker int | NaN

fun find_worker_tags :: "string list \<Rightarrow> error + worker" where
  "find_worker_tags [] = Inr NaN"
| "find_worker_tags (tag # tags) =
     (if startswith tag ''worker-''
      then (case py_int (drop 7 tag) of None \<Rightarrow> Inl ValueError | Some n \<Rightarrow> Inr (Worker n))
      else find_worker_tags tags)"

definition find_worker :: "test \<Rightarrow> error + worker" where
  "find_worker t = find_worker_tags (t_tags t)"

text \<open>\<open>'%s' % worker\<close>.\<close>

fun str_worker :: "worker \<Rightarrow> string" where
  "str_worker (Worker n) = fmt_d n"
| "str_worker NaN = ''NaN''"

subsection \<open>print_attachments\<close>

text \<open>\<open>s.split('\n')\<close>.\<close>

fun split_nl :: "string \<Rightarrow> string list" where
  "split_nl [] = [[]]"
| "split_nl (c # cs) =
     (if c = CHR 0x0A then [] # split_nl cs
      else (case split_nl cs of [] \<Rightarrow> [[c]] | l # ls \<Rightarrow> (c # l) # ls))"

text \<open>
  The retyping of a content whose type is \<open>test\<close>. The source sets the type on the content
  object itself, for every attachment the loop reaches and before the channel test, so
  the record keeps the new type. The loop therefore hands back, with the output, the
  attachments as it leaves them: those it has passed retyped (also the one at which
  \<open>as_text\<close> raises), the others untouched.
\<close>

definition retype :: "content \<Rightarrow> content" where
  "retype detail =
     (if content_type_type detail = ''test'' then detail\<lparr> content_type_type := ''text'' \<rparr> else detail)"

definition channel :: "string \<Rightarrow> string" where
  "channel name = takeWhile (\<lambda>c. c \<noteq> CHR '':'') name"

definition attachment_block :: "string \<Rightarrow> string \<Rightarrow> wr list" where
  "attachment_block name text =
     (let title = ''Captured '' @ name @ '':''
      in Text ([CHR 0x0A] @ title @ [CHR 0x0A] @ replicate (length title) CHR ''~'' @ [CHR 0x0A]) #
         map (\<lambda>line. Text (''    '' @ line @ [CHR 0x0A])) (split_nl text))"

fun print_attachments_loop ::
    "ext \<Rightarrow> bool \<Rightarrow> wr list \<Rightarrow> (string \<times> content) list \<Rightarrow> (string \<times> content) list \<Rightarrow>
     (wr list \<times> (string \<times> content) list) result" where
  "print_attachments_loop X all_channels stream seen [] = Return (stream, seen)"
| "print_attachments_loop X all_channels stream seen ((name, detail) # rest) =
     (if all_channels \<or> channel name \<in> {''stdout'', ''stderr''}
      then (case as_text X (retype detail) of
              Inl e \<Rightarrow> Raised e (stream, seen @ (name, retype detail) # rest)
            | Inr body \<Rightarrow>
                (if body \<noteq> []
                 then print_attachments_loop X all_channels
                        (stream @ attachment_block (channel name) body)
                        (seen @ [(name, retype detail)]) rest
                 else print_attachments_loop X all_channels stream
                        (seen @ [(name, retype detail)]) rest))
      else print_attachments_loop X all_channels stream (seen @ [(name, retype detail)]) rest)"

definition print_attachments ::
    "ext \<Rightarrow> wr list \<Rightarrow> test \<Rightarrow> bool \<Rightarrow> (wr list \<times> (string \<times> content) list) result" where
  "print_attachments X stream t all_channels =
     print_attachments_loop X all_channels stream [] (t_details t)"

subsection \<open>show_outcome\<close>

text \<open>
  The state of the process: what was written to \<open>sys.stdout\<close> and the two module-level
  variables. \<open>stream.flush()\<close> changes none of them.
\<close>

record process =
  stdout :: "wr list"
  FAILS :: "test list"
  RESULTS :: "(worker \<times> test list) list"

text \<open>\<open>if worker not in RESULTS: RESULTS[worker] = []\<close>, then \<open>RESULTS[worker].append(test)\<close>.\<close>

definition bucket :: "(worker \<times> test list) list \<Rightarrow> worker \<Rightarrow> test list" where
  "bucket R w = (case map_of R w of None \<Rightarrow> [] | Some b \<Rightarrow> b)"

definition results_append :: "(worker \<times> test list) list \<Rightarrow> worker \<Rightarrow> test \<Rightarrow> (worker \<times> test list) list" where
  "results_append R w t = dict_set w (bucket R w @ [t]) R"

definition stream_write :: "process \<Rightarrow> string \<Rightarrow> process" where
  "stream_write p s = p\<lparr> stdout := stdout p @ [Text s] \<rparr>"

text \<open>
  \<open>RESULTS[worker].append(test)\<close> and \<open>FAILS.append(test)\<close> store the object \<open>test\<close>
  itself, and \<open>print_attachments\<close> then retypes the attachments of that object. So once
  \<open>print_attachments\<close> has run, the record appended last to the bucket of the worker,
  and to \<open>FAILS\<close> when it was appended there, has the attachments as the loop left
  them. \<open>after_print\<close> puts the output and these attachments into the state.
\<close>

definition set_last :: "'a \<Rightarrow> 'a list \<Rightarrow> 'a list" where
  "set_last x xs = butlast xs @ [x]"

definition alias_record :: "process \<Rightarrow> worker \<Rightarrow> bool \<Rightarrow> test \<Rightarrow> process" where
  "alias_record p worker failed t' =
     p\<lparr> RESULTS := dict_set worker (set_last t' (bucket (RESULTS p) worker)) (RESULTS p),
        FAILS := (if failed then set_last t' (FAILS p) else FAILS p) \<rparr>"

fun after_print ::
    "process \<Rightarrow> worker \<Rightarrow> bool \<Rightarrow> test \<Rightarrow> (wr list \<times> (string \<times> content) list) result \<Rightarrow> process result" where
  "after_print p worker failed t (Return od) =
     Return (alias_record (p\<lparr> stdout := fst od \<rparr>) worker failed (t\<lparr> t_details := snd od \<rparr>))"
| "after_print p worker failed t (Raised e od) =
     Raised e (alias_record (p\<lparr> stdout := fst od \<rparr>) worker failed (t\<lparr> t_details := snd od \<rparr>))"

definition show_outcome :: "ext \<Rightarrow> process \<Rightarrow> test \<Rightarrow> process result" where
  "show_outcome X p t =
     (let status = t_status t in
      if status = ''exists'' then Return p
      else
        (case find_worker t of
           Inl e \<Rightarrow> Raised e p
         | Inr worker \<Rightarrow>
             (let name = cleanup_test_name (t_id t) True False;
                  duration = get_duration (t_timestamps t);
                  p1 = p\<lparr> RESULTS := results_append (RESULTS p) worker t \<rparr>
              in if name = ''process-returncode'' then Return p1
                 else if status = ''success'' then
                   (let p2 = stream_write p1 (''{'' @ str_worker worker @ ''} '' @ name @ '' ['' @ duration @
                                        ''] ... ok'' @ [CHR 0x0A])
                    in after_print p2 worker False t (print_attachments X (stdout p2) t False))
                 else if status = ''fail'' then
                   (let p2 = p1\<lparr> FAILS := FAILS p1 @ [t] \<rparr>;
                        p3 = stream_write p2 (''{'' @ str_worker worker @ ''} '' @ name @ '' ['' @ duration @
                                        ''] ... FAILED'' @ [CHR 0x0A])
                    in after_print p3 worker True t (print_attachments X (stdout p3) t True))
                 else if status = ''skip'' then
                   (case map_of (t_details t) ''reason'' of
                      None \<Rightarrow> Raised KeyError p1
                    | Some reason \<Rightarrow>
                        (case as_text X reason of
                           Inl e \<Rightarrow> Raised e p1
                         | Inr text \<Rightarrow>
                             Return (stream_write p1 (''{'' @ str_worker worker @ ''} '' @ name @
                                               '' ... SKIPPED: '' @ text @ [CHR 0x0A]))))
                 else
                   (let p2 = stream_write p1 (''{'' @ str_worker worker @ ''} '' @ name @ '' ['' @ duration @
                                        ''] ... '' @ status @ [CHR 0x0A])
                    in after_print p2 worker False t (print_attachments X (stdout p2) t True)))))"

text \<open>
  The aggregator is called once for each finished record; an exception ends the run.
\<close>

fun show_outcomes :: "ext \<Rightarrow> process \<Rightarrow> test list \<Rightarrow> process result" where
  "show_outcomes X p [] = Return p"
| "show_outcomes X p (t # ts) =
     (case show_outcome X p t of
        Return p' \<Rightarrow> show_outcomes X p' ts
      | Raised e p' \<Rightarrow> Raised e p')"

text \<open>The process before the first run: nothing written, the two variables as the module creates them.\<close>

definition fresh_process :: process where
  "fresh_process = \<lparr> stdout = [], FAILS = [], RESULTS = [] \<rparr>"

subsection \<open>The observers that main wires together\<close>

text \<open>
  \<open>main\<close> hands every decoded event to three observers, in this order: a \<open>Starts\<close>, a
  \<open>testtools.StreamToDict\<close> whose callback is \<open>show_outcome\<close>, and a
  \<open>testtools.StreamSummary\<close>, whose verdict is the exit status. The classes of
  \<open>testtools\<close> are a library outside the repository. They are modelled here after the
  library, as far as the script depends on them:
  \<^item> \<open>StreamToDict\<close> keeps a dictionary of unfinished records under the key
    \<open>(test_id, route_code)\<close>. An event without \<open>test_id\<close> is ignored. Otherwise the
    record is created on first sight with status \<open>unknown\<close> and the event's timestamp as
    first timestamp; then the status (when given), the last timestamp, the attachment
    (when \<open>file_name\<close> is given) and the tags (when given) are updated; when the status of
    the event is neither \<open>None\<close> nor \<open>inprogress\<close> the record is removed and handed to
    the callback. \<open>stopTestRun\<close> hands over every record still there, last one first,
    with the last timestamp set to \<open>None\<close>.
  \<^item> \<open>StreamSummary\<close> is a \<open>StreamToDict\<close> whose callback ignores \<open>exists\<close>, files a
    record under \<open>errors\<close> when its status is \<open>fail\<close>, \<open>unknown\<close> or \<open>inprogress\<close>,
    accepts \<open>success\<close>, \<open>skip\<close>, \<open>xfail\<close> and \<open>uxsuccess\<close>, and raises \<open>KeyError\<close> on
    any other status; for \<open>skip\<close> it decodes the \<open>reason\<close> attachment when there is
    one, for \<open>fail\<close> and \<open>xfail\<close> every attachment of type \<open>text\<close>. \<open>wasSuccessful\<close>
    holds when \<open>errors\<close> is empty.
  \<^item> \<open>CopyStreamResult\<close> calls its targets one after the other.
\<close>

type_synonym inprogress = "((string \<times> string option) \<times> test) list"

definition trim_charset :: "(string \<times> string) list \<Rightarrow> (string \<times> string) list" where
  "trim_charset ps =
     map (\<lambda>kv. if fst kv = ''charset'' then (fst kv, takeWhile (\<lambda>c. c \<noteq> CHR '','') (snd kv)) else kv) ps"

definition add_file :: "ext \<Rightarrow> test \<Rightarrow> event \<Rightarrow> error + test" where
  "add_file X c ev =
     (case file_name ev of
        None \<Rightarrow> Inr c
      | Some fn \<Rightarrow>
          (let fb = (case file_bytes ev of None \<Rightarrow> [] | Some b \<Rightarrow> b) in
           case map_of (t_details c) fn of
             Some d \<Rightarrow>
               Inr (c\<lparr> t_details := dict_set fn (d\<lparr> content_bytes := content_bytes d @ fb \<rparr>) (t_details c) \<rparr>)
           | None \<Rightarrow>
               (case parse_mime_type X
                       (case mime_type ev of None \<Rightarrow> ''application/octet-stream'' | Some m \<Rightarrow> m) of
                  Inl e \<Rightarrow> Inl e
                | Inr (primary, sub, parameters) \<Rightarrow>
                    Inr (c\<lparr> t_details := dict_set fn
                           \<lparr> content_type_type = primary, content_type_subtype = sub,
                             content_type_parameters = trim_charset parameters,
                             content_bytes = fb \<rparr> (t_details c) \<rparr>))))"

definition StreamToDict_status ::
    "ext \<Rightarrow> inprogress \<Rightarrow> event \<Rightarrow> (inprogress \<times> test option) result" where
  "StreamToDict_status X ip ev =
     (case test_id ev of
        None \<Rightarrow> Return (ip, None)
      | Some tid \<Rightarrow>
          (let key = (tid, route_code ev);
               c0 = (case map_of ip key of
                       None \<Rightarrow> \<lparr> t_id = tid, t_status = ''unknown'', t_tags = [], t_details = [],
                                 t_timestamps = (timestamp ev, None) \<rparr>
                     | Some c \<Rightarrow> c);
               c1 = (case test_status ev of None \<Rightarrow> c0 | Some s \<Rightarrow> c0\<lparr> t_status := s \<rparr>);
               c2 = c1\<lparr> t_timestamps := (fst (t_timestamps c1), timestamp ev) \<rparr>
           in case add_file X c2 ev of
                Inl e \<Rightarrow> Raised e (dict_set key c2 ip, None)
              | Inr c3 \<Rightarrow>
                  (let c4 = (case test_tags ev of None \<Rightarrow> c3 | Some tags \<Rightarrow> c3\<lparr> t_tags := tags \<rparr>)
                   in if test_status ev \<noteq> None \<and> test_status ev \<noteq> Some ''inprogress''
                      then Return (dict_del key ip, Some c4)
                      else Return (dict_set key c4 ip, None))))"

definition StreamToDict_leftovers :: "inprogress \<Rightarrow> test list" where
  "StreamToDict_leftovers ip =
     map (\<lambda>kc. (snd kc)\<lparr> t_timestamps := (fst (t_timestamps (snd kc)), None) \<rparr>) (rev ip)"

fun decode_texts :: "ext \<Rightarrow> (string \<times> content) list \<Rightarrow> error option" where
  "decode_texts X [] = None"
| "decode_texts X ((name, detail) # rest) =
     (if content_type_type detail \<noteq> ''text'' then decode_texts X rest
      else (case as_text X detail of Inl e \<Rightarrow> Some e | Inr body \<Rightarrow> decode_texts X rest))"

definition gather_test :: "ext \<Rightarrow> test list \<Rightarrow> test \<Rightarrow> (test list) result" where
  "gather_test X errs t =
     (let status = t_status t in
      if status = ''exists'' \<or> status = ''success'' \<or> status = ''uxsuccess'' then Return errs
      else if status = ''skip'' then
        (case map_of (t_details t) ''reason'' of
           None \<Rightarrow> Return errs
         | Some reason \<Rightarrow> (case as_text X reason of Inl e \<Rightarrow> Raised e errs | Inr body \<Rightarrow> Return errs))
      else if status = ''fail'' then
        (case decode_texts X (t_details t) of Some e \<Rightarrow> Raised e errs | None \<Rightarrow> Return (errs @ [t]))
      else if status = ''xfail'' then
        (case decode_texts X (t_details t) of Some e \<Rightarrow> Raised e errs | None \<Rightarrow> Return errs)
      else if status = ''unknown'' \<or> status = ''inprogress'' then Return (errs @ [t])
      else Raised KeyError errs)"

fun gather_tests :: "ext \<Rightarrow> test list \<Rightarrow> test list \<Rightarrow> (test list) result" where
  "gather_tests X errs [] = Return errs"
| "gather_tests X errs (t # ts) =
     (case gather_test X errs t of
        Return errs' \<Rightarrow> gather_tests X errs' ts
      | Raised e errs' \<Rightarrow> Raised e errs')"

record observers =
  starts :: Starts
  outcomes :: inprogress
  summary :: inprogress
  errors :: "test list"

definition starts_step :: "ext \<Rightarrow> event \<Rightarrow> observers \<times> process \<Rightarrow> (observers \<times> process) result" where
  "starts_step X ev st =
     (case Starts_status X (stdout (snd st), starts (fst st)) ev of
        Return os \<Rightarrow> Return ((fst st)\<lparr> starts := snd os \<rparr>, (snd st)\<lparr> stdout := fst os \<rparr>)
      | Raised e os \<Rightarrow> Raised e ((fst st)\<lparr> starts := snd os \<rparr>, (snd st)\<lparr> stdout := fst os \<rparr>))"

definition outcomes_step :: "ext \<Rightarrow> event \<Rightarrow> observers \<times> process \<Rightarrow> (observers \<times> process) result" where
  "outcomes_step X ev st =
     (case StreamToDict_status X (outcomes (fst st)) ev of
        Raised e ir \<Rightarrow> Raised e ((fst st)\<lparr> outcomes := fst ir \<rparr>, snd st)
      | Return ir \<Rightarrow>
          (case snd ir of
             None \<Rightarrow> Return ((fst st)\<lparr> outcomes := fst ir \<rparr>, snd st)
           | Some t \<Rightarrow>
               (case show_outcome X (snd st) t of
                  Return p' \<Rightarrow> Return ((fst st)\<lparr> outcomes := fst ir \<rparr>, p')
                | Raised e p' \<Rightarrow> Raised e ((fst st)\<lparr> outcomes := fst ir \<rparr>, p'))))"

definition summary_step :: "ext \<Rightarrow> event \<Rightarrow> observers \<times> process \<Rightarrow> (observers \<times> process) result" where
  "summary_step X ev st =
     (case StreamToDict_status X (summary (fst st)) ev of
        Raised e ir \<Rightarrow> Raised e ((fst st)\<lparr> summary := fst ir \<rparr>, snd st)
      | Return ir \<Rightarrow>
          (case snd ir of
             None \<Rightarrow> Return ((fst st)\<lparr> summary := fst ir \<rparr>, snd st)
           | Some t \<Rightarrow>
               (case gather_test X (errors (fst st)) t of
                  Return errs \<Rightarrow> Return ((fst st)\<lparr> summary := fst ir, errors := errs \<rparr>, snd st)
                | Raised e errs \<Rightarrow> Raised e ((fst st)\<lparr> summary := fst ir, errors := errs \<rparr>, snd st))))"

definition CopyStreamResult_status ::
    "ext \<Rightarrow> observers \<times> process \<Rightarrow> event \<Rightarrow> (observers \<times> process) result" where
  "CopyStreamResult_status X st ev =
     bind_result (bind_result (starts_step X ev st) (outcomes_step X ev)) (summary_step X ev)"

definition outcomes_stop :: "ext \<Rightarrow> observers \<times> process \<Rightarrow> (observers \<times> process) result" where
  "outcomes_stop X st =
     (case show_outcomes X (snd st) (StreamToDict_leftovers (outcomes (fst st))) of
        Return p' \<Rightarrow> Return ((fst st)\<lparr> outcomes := [] \<rparr>, p')
      | Raised e p' \<Rightarrow> Raised e ((fst st)\<lparr> outcomes := [] \<rparr>, p'))"

definition summary_stop :: "ext \<Rightarrow> observers \<times> process \<Rightarrow> (observers \<times> process) result" where
  "summary_stop X st =
     (case gather_tests X (errors (fst st)) (StreamToDict_leftovers (summary (fst st))) of
        Return errs \<Rightarrow> Return ((fst st)\<lparr> summary := [], errors := errs \<rparr>, snd st)
      | Raised e errs \<Rightarrow> Raised e ((fst st)\<lparr> summary := [], errors := errs \<rparr>, snd st))"

definition CopyStreamResult_stopTestRun ::
    "ext \<Rightarrow> observers \<times> process \<Rightarrow> (observers \<times> process) result" where
  "CopyStreamResult_stopTestRun X st = bind_result (outcomes_stop X st) (summary_stop X)"

definition wasSuccessful :: "observers \<Rightarrow> bool" where
  "wasSuccessful obs = (errors obs = [])"

subsection \<open>main\<close>

text \<open>\<open>stream.run(result)\<close> on the decoded events; an exception ends the loop.\<close>

fun run_events :: "ext \<Rightarrow> observers \<times> process \<Rightarrow> event list \<Rightarrow> (observers \<times> process) result" where
  "run_events X st [] = Return st"
| "run_events X st (ev # evs) =
     (case CopyStreamResult_status X st ev of
        Return st' \<Rightarrow> run_events X st' evs
      | Raised e st' \<Rightarrow> Raised e st')"

text \<open>
  \<open>main\<close> builds fresh observers and starts them, but reads and writes the module-level
  \<open>FAILS\<close> and \<open>RESULTS\<close> as they are in the process. \<open>stopTestRun\<close> runs in the
  \<open>finally\<close> clause, so also after an exception. The result is the exit status of
  \<open>sys.exit(main())\<close> with the final state: an exception that leaves \<open>main\<close> ends the
  interpreter with status 1.
\<close>

definition main :: "ext \<Rightarrow> process \<Rightarrow> event list \<Rightarrow> int \<times> observers \<times> process" where
  "main X p evs =
     (let st0 = (\<lparr> starts = Starts_startTestRun, outcomes = [], summary = [], errors = [] \<rparr>, p)
      in case run_events X st0 evs of
           Raised e st1 \<Rightarrow> (1, state_of (CopyStreamResult_stopTestRun X st1))
         | Return st1 \<Rightarrow>
             (case CopyStreamResult_stopTestRun X st1 of
                Raised e st2 \<Rightarrow> (1, st2)
              | Return st2 \<Rightarrow> (if wasSuccessful (fst st2) then 0 else 1, st2)))"

subsection \<open>Notions used in the statements and in the proofs\<close>

text \<open>
  One stripping rule of \<open>cleanup_test_name\<close> on its own, for any pair of delimiters,
  and the condition under which it cuts.
\<close>

definition strip_span :: "char \<Rightarrow> char \<Rightarrow> string \<Rightarrow> string" where
  "strip_span opn cls name =
     (let a = str_find name opn; b = str_find name cls
      in if a > 0 \<and> b > a then take (nat a) name @ drop (nat (b + 1)) name else name)"

definition strips :: "char \<Rightarrow> char \<Rightarrow> string \<Rightarrow> bool" where
  "strips opn cls s = (0 < str_find s opn \<and> str_find s opn < str_find s cls)"

text \<open>The number of start lines for an identifier in an output, and the invariant of the tracker.\<close>

definition start_count :: "string \<Rightarrow> wr list \<Rightarrow> nat" where
  "start_count i out = length (filter (is_start i) out)"

definition starts_inv :: "wr list \<times> Starts \<Rightarrow> bool" where
  "starts_inv st = (\<forall>i. start_count i (fst st) \<le> (if i \<in> emitted (snd st) then 1 else 0))"

text \<open>The sum of the sizes of the per-worker buckets.\<close>

definition bucket_total :: "(worker \<times> test list) list \<Rightarrow> nat" where
  "bucket_total R = sum_list (map (\<lambda>kv. length (snd kv)) R)"






definition stored_state :: "process \<Rightarrow> worker \<Rightarrow> bool \<Rightarrow> test \<Rightarrow> wr list \<times> (string \<times> content) list \<Rightarrow> process" where
  "stored_state p w failed t od =
     p\<lparr> stdout := fst od,
        RESULTS := results_append (RESULTS p) w (t\<lparr> t_details := snd od \<rparr>),
        FAILS := (if failed then FAILS p @ [t\<lparr> t_details := snd od \<rparr>] else FAILS p) \<rparr>"

fun stored ::
    "process \<Rightarrow> worker \<Rightarrow> bool \<Rightarrow> test \<Rightarrow> (wr list \<times> (string \<times> content) list) result \<Rightarrow> process result" where
  "stored p w failed t (Return od) = Return (stored_state p w failed t od)"
| "stored p w failed t (Raised e od) = Raised e (stored_state p w failed t od)"

text \<open>Whether an exception leaves \<open>main\<close>, from the event loop or from \<open>stopTestRun\<close>.\<close>

definition main_raised :: "ext \<Rightarrow> process \<Rightarrow> event list \<Rightarrow> bool" where
  "main_raised X p evs =
     (case run_events X (\<lparr> starts = Starts_startTestRun, outcomes = [], summary = [], errors = [] \<rparr>, p) evs of
        Raised e st1 \<Rightarrow> True
      | Return st1 \<Rightarrow>
          (case CopyStreamResult_stopTestRun X st1 of Raised e st2 \<Rightarrow> True | Return st2 \<Rightarrow> False))"

text \<open>
  A process state \<open>p\<close> is the state \<open>q\<close> of a fresh process shifted by an earlier
  state \<open>base\<close>: the output, the failure list and every bucket of \<open>p\<close> are those of
  \<open>base\<close> followed by those of \<open>q\<close>.
\<close>

definition shifted :: "process \<Rightarrow> process \<Rightarrow> process \<Rightarrow> bool" where
  "shifted base q p =
     (stdout p = stdout base @ stdout q \<and> FAILS p = FAILS base @ FAILS q \<and>
      (\<forall>w. bucket (RESULTS p) w = bucket (RESULTS base) w @ bucket (RESULTS q) w))"

definition shifted_run :: "process \<Rightarrow> observers \<times> process \<Rightarrow> observers \<times> process \<Rightarrow> bool" where
  "shifted_run base s r = (fst r = fst s \<and> shifted base (snd s) (snd r))"

text \<open>
  A helper for the invariant of \<open>main\<close>: a failure list that is not empty is matched by
  an error of the summary, and the two record builders hold the same dictionary.
\<close>

definition covered :: "process \<Rightarrow> test list \<Rightarrow> bool" where
  "covered p errs = (FAILS p \<noteq> [] \<longrightarrow> errs \<noteq> [])"

definition in_step :: "observers \<times> process \<Rightarrow> bool" where
  "in_step st = (outcomes (fst st) = summary (fst st) \<and> covered (snd st) (errors (fst st)))"

subsection \<open>Inputs for the examples\<close>

text \<open>
  Stand-ins for the external decoders, for the examples: the MIME type is cut at the
  slash, a content decodes to its bytes when its type is \<open>text\<close> and raises otherwise.
\<close>

definition plain_ext :: ext where
  "plain_ext =
     \<lparr> parse_mime_type = (\<lambda>m. Inr (takeWhile (\<lambda>c. c \<noteq> CHR ''/'') m, drop 1 (dropWhile (\<lambda>c. c \<noteq> CHR ''/'') m), [])),
       as_text = (\<lambda>c. if content_type_type c = ''text'' then Inr (content_bytes c) else Inl ValueError),
       isoformat = (\<lambda>t. fmt_d t) \<rparr>"

text \<open>The defaults of the keyword arguments of \<open>status\<close>.\<close>

definition status_defaults :: event where
  "status_defaults =
     \<lparr> test_id = None, test_status = None, test_tags = None, file_name = None,
       file_bytes = None, mime_type = None, route_code = None, timestamp = None \<rparr>"

text \<open>
  The events of the end-to-end scenarios: \<open>test_a\<close> starts at 1.0 s and succeeds at
  2.0 s on worker 0; \<open>test_b\<close> fails with a traceback; the decoder reports a failing
  \<open>process-returncode\<close>.
\<close>

definition start_event :: event where
  "start_event =
     status_defaults\<lparr> test_id := Some ''test_a'', test_status := Some ''inprogress'',
       test_tags := Some [''worker-0''], timestamp := Some 1000000 \<rparr>"

definition success_event :: event where
  "success_event =
     status_defaults\<lparr> test_id := Some ''test_a'', test_status := Some ''success'',
       test_tags := Some [''worker-0''], timestamp := Some 2000000 \<rparr>"

definition fail_event :: event where
  "fail_event =
     status_defaults\<lparr> test_id := Some ''test_b'', test_status := Some ''fail'',
       file_name := Some ''traceback'', file_bytes := Some ''boom'',
       mime_type := Some ''text/x-traceback'' \<rparr>"

definition returncode_event :: event where
  "returncode_event =
     status_defaults\<lparr> test_id := Some ''process-returncode'', test_status := Some ''fail'' \<rparr>"

text \<open>The record of \<open>test_a\<close> as the record builder hands it over.\<close>

definition example_test :: test where
  "example_test =
     \<lparr> t_id = ''test_a'', t_status = ''success'', t_tags = [''worker-0''],
       t_details = [], t_timestamps = (Some 1000000, Some 2000000) \<rparr>"

text \<open>
  A failing record of the decoder's own return code, and attachments: a traceback of
  type \<open>text\<close>, a captured output of the type \<open>test\<close> that the script retypes, and a
  binary content, which does not decode.
\<close>

definition returncode_record :: test where
  "returncode_record =
     \<lparr> t_id = ''process-returncode'', t_status = ''fail'', t_tags = [],
       t_details = [], t_timestamps = (None, None) \<rparr>"





section \<open>Properties\<close>

declare str_nat.simps [simp del]

subsection \<open>Decimal rendering\<close>


lemma digit_nth_in: "d < 10 \<Longrightarrow> ''0123456789'' ! d \<in> set ''0123456789''"
  by (rule nth_mem) simp

lemma str_nat_digits: "set (str_nat n) \<subseteq> set ''0123456789''"
proof (induction n rule: str_nat.induct)
  case (1 n)
  show ?case
  proof (cases "n < 10")
    case True
    then show ?thesis using digit_nth_in [of n] by (subst str_nat.simps) simp
  next
    case False
    have "n mod 10 < 10" by simp
    then have "''0123456789'' ! (n mod 10) \<in> set ''0123456789''" by (rule digit_nth_in)
    with False 1 show ?thesis by (subst str_nat.simps) simp
  qed
qed

lemma str_nat_length: "0 < k \<Longrightarrow> n < 10 ^ k \<Longrightarrow> length (str_nat n) \<le> k"
proof (induction n arbitrary: k rule: str_nat.induct)
  case (1 n)
  show ?case
  proof (cases "n < 10")
    case True
    then show ?thesis using 1(2) by (subst str_nat.simps) simp
  next
    case False
    obtain j where k: "k = Suc j" using 1(2) by (cases k) auto
    have j: "0 < j"
    proof (rule ccontr)
      assume "\<not> 0 < j"
      then have "k = 1" using k by simp
      then show False using 1(3) False by simp
    qed
    have "n div 10 < 10 ^ j" using 1(3) k by (simp add: less_mult_imp_div_less mult.commute)
    then have "length (str_nat (n div 10)) \<le> j" using 1(1) False j by simp
    then show ?thesis using False k by (subst str_nat.simps) simp
  qed
qed

lemma digit_val_nth: "d < 10 \<Longrightarrow> digit_val (''0123456789'' ! d) = d"
proof -
  assume "d < 10"
  then have "d \<in> {0,1,2,3,4,5,6,7,8,9}" by auto
  then show ?thesis by (auto simp: digit_val_def)
qed

lemma dec_value_snoc: "dec_value (s @ [c]) = 10 * dec_value s + digit_val c"
  by (simp add: dec_value_def)

lemma dec_value_str_nat: "dec_value (str_nat n) = n"
proof (induction n rule: str_nat.induct)
  case (1 n)
  show ?case
  proof (cases "n < 10")
    case True
    then show ?thesis by (subst str_nat.simps) (simp add: dec_value_def digit_val_nth)
  next
    case False
    then show ?thesis using 1
      by (subst str_nat.simps) (simp add: dec_value_snoc digit_val_nth)
  qed
qed

lemma dec_value_zeros: "dec_value (replicate k CHR ''0'' @ s) = dec_value s"
proof -
  have "foldl (\<lambda>a c. 10 * a + digit_val c) 0 (replicate k CHR ''0'') = 0"
    by (induction k) (simp_all add: digit_val_def)
  then show ?thesis by (simp add: dec_value_def)
qed

lemma replicate5: "replicate 5 c = [c, c, c, c, c]"
  by (simp add: numeral_eq_Suc)

lemma fmt_06d_micro:
  assumes "0 \<le> n" "n < 1000000"
  shows "length (fmt_06d n) = 6" "set (fmt_06d n) \<subseteq> set ''0123456789''" "int (dec_value (fmt_06d n)) = n"
proof -
  have "nat n < 10 ^ 6" using assms by simp
  then have len: "length (str_nat (nat n)) \<le> 6" by (intro str_nat_length) simp_all
  show "length (fmt_06d n) = 6" using assms len by (simp add: fmt_06d_def)
  show "set (fmt_06d n) \<subseteq> set ''0123456789''"
    using assms str_nat_digits [of "nat n"] by (auto simp: fmt_06d_def)
  show "int (dec_value (fmt_06d n)) = n" using assms by (simp add: fmt_06d_def dec_value_zeros dec_value_str_nat)
qed

lemma whole_seconds: "((d::int) div 86400000000) * 86400 + (d mod 86400000000) div 1000000 = d div 1000000"
proof -
  have "d div 1000000 = (d div 86400000000 * 86400000000 + d mod 86400000000) div 1000000" by simp
  also have "\<dots> = (d div 86400000000 * 86400 * 1000000 + d mod 86400000000) div 1000000" by simp
  also have "\<dots> = d div 86400000000 * 86400 + d mod 86400000000 div 1000000"
    by (subst div_mult_self3) simp_all
  finally show ?thesis by simp
qed


subsection \<open>The stripping rules\<close>

lemma cleanup_test_name_spans:
  "cleanup_test_name name st ss =
     (let n1 = (if st then strip_span CHR ''['' CHR '']'' name else name)
      in if ss then strip_span CHR ''('' CHR '')'' n1 else n1)"
  by (cases st; cases ss; simp add: cleanup_test_name_def strip_span_def Let_def)

lemma str_find_notin: "c \<notin> set s \<Longrightarrow> str_find s c = - 1"
  by (induction s) (auto simp: Let_def)

lemma str_find_ge: "- 1 \<le> str_find s c"
  by (induction s) (auto simp: Let_def)

lemma str_find_in: "c \<in> set s \<Longrightarrow> 0 \<le> str_find s c"
  by (induction s) (auto simp: Let_def)

lemma str_find_first: "c \<notin> set pre \<Longrightarrow> str_find (pre @ c # post) c = int (length pre)"
  by (induction pre) (auto simp: Let_def)

lemma str_find_split:
  "0 \<le> str_find s c \<Longrightarrow> \<exists>pre post. s = pre @ c # post \<and> c \<notin> set pre \<and> str_find s c = int (length pre)"
proof (induction s)
  case Nil
  then show ?case by simp
next
  case (Cons x xs)
  show ?case
  proof (cases "x = c")
    case True
    then have "x # xs = [] @ c # xs \<and> c \<notin> set [] \<and> str_find (x # xs) c = int (length ([]::string))" by simp
    then show ?thesis by blast
  next
    case False
    with Cons.prems have "0 \<le> str_find xs c" by (auto simp: Let_def split: if_splits)
    then obtain pre post where "xs = pre @ c # post" "c \<notin> set pre" "str_find xs c = int (length pre)"
      using Cons.IH by blast
    with False have "x # xs = (x # pre) @ c # post \<and> c \<notin> set (x # pre) \<and> str_find (x # xs) c = int (length (x # pre))"
      by (simp add: Let_def)
    then show ?thesis by blast
  qed
qed

lemma strip_span_cut:
  assumes "pre \<noteq> []" "opn \<notin> set pre" "cls \<notin> set pre" "cls \<notin> set mid" "opn \<noteq> cls"
  shows "strip_span opn cls (pre @ opn # mid @ cls # post) = pre @ post"
proof -
  have a: "str_find (pre @ opn # mid @ cls # post) opn = int (length pre)"
    using assms(2) by (rule str_find_first)
  have "cls \<notin> set (pre @ opn # mid)" using assms by auto
  then have "str_find ((pre @ opn # mid) @ cls # post) cls = int (length (pre @ opn # mid))"
    by (rule str_find_first)
  then have b: "str_find (pre @ opn # mid @ cls # post) cls = int (length pre) + 1 + int (length mid)"
    by simp
  show ?thesis using assms(1) by (simp add: strip_span_def a b Let_def nat_add_distrib)
qed

lemma strip_span_cases:
  assumes "opn \<noteq> cls"
  shows "strip_span opn cls name = name \<or>
     (\<exists>pre mid post. name = pre @ opn # mid @ cls # post \<and> pre \<noteq> [] \<and> opn \<notin> set pre \<and>
        cls \<notin> set pre \<and> cls \<notin> set mid \<and> strip_span opn cls name = pre @ post)"
proof (cases "str_find name opn > 0 \<and> str_find name cls > str_find name opn")
  case False
  then show ?thesis by (auto simp: strip_span_def Let_def)
next
  case True
  then obtain pre r where 1: "name = pre @ opn # r" "opn \<notin> set pre" "str_find name opn = int (length pre)"
    using str_find_split [of name opn] by auto
  from True obtain p2 post where 2: "name = p2 @ cls # post" "cls \<notin> set p2" "str_find name cls = int (length p2)"
    using str_find_split [of name cls] by auto
  have lt: "length pre < length p2" using True 1 2 by simp
  have "take (length p2) name = p2" using 2 by simp
  then have "p2 = take (length p2) (pre @ opn # r)" using 1 by simp
  then have "p2 = pre @ take (length p2 - length pre) (opn # r)" using lt by simp
  then obtain mid where mid: "p2 = pre @ opn # mid" using lt by (cases "length p2 - length pre") auto
  have ne: "pre \<noteq> []" using True 1 by auto
  have "name = pre @ opn # mid @ cls # post" using 2 mid by simp
  moreover have "cls \<notin> set pre" "cls \<notin> set mid" using 2(2) mid by auto
  ultimately show ?thesis using strip_span_cut [OF ne 1(2) _ _ assms, of mid post] 1(2) ne by blast
qed

lemma strip_span_open_first: "strip_span opn cls (opn # rest) = opn # rest"
  by (simp add: strip_span_def)

lemma strip_span_no_open: "opn \<notin> set name \<Longrightarrow> strip_span opn cls name = name"
  by (simp add: strip_span_def str_find_notin)

lemma strip_span_no_close_after:
  assumes "opn \<notin> set pre" "cls \<notin> set rest" "opn \<noteq> cls"
  shows "strip_span opn cls (pre @ opn # rest) = pre @ opn # rest"
proof (cases "cls \<in> set pre")
  case False
  then have "cls \<notin> set (pre @ opn # rest)" using assms by auto
  then show ?thesis by (simp add: strip_span_def str_find_notin str_find_first assms(1))
next
  case True
  then obtain p1 p2 where p: "pre = p1 @ cls # p2" "cls \<notin> set p1" by (meson split_list_first)
  have "str_find ((p1 @ cls # p2) @ opn # rest) cls = int (length p1)"
    using str_find_first [OF p(2), of "p2 @ opn # rest"] by simp
  moreover have "str_find (pre @ opn # rest) opn = int (length pre)" using assms(1) by (rule str_find_first)
  ultimately show ?thesis using p by (simp add: strip_span_def)
qed


lemma strip_span_strips: "strip_span opn cls s = (if strips opn cls s then take (nat (str_find s opn)) s @ drop (nat (str_find s cls + 1)) s else s)"
  by (simp add: strip_span_def strips_def Let_def)

lemma str_find_lt_length: "str_find s c < int (length s)"
  by (induction s) (auto simp: Let_def)

lemma strips_shorter: "strips opn cls s \<Longrightarrow> length (strip_span opn cls s) < length s"
  using str_find_lt_length [of s cls] str_find_lt_length [of s opn]
  by (auto simp: strip_span_strips strips_def)

lemma strip_span_fix_iff: "strip_span opn cls s = s \<longleftrightarrow> \<not> strips opn cls s"
proof
  assume "strip_span opn cls s = s"
  then show "\<not> strips opn cls s" using strips_shorter [of opn cls s] by auto
next
  assume "\<not> strips opn cls s"
  then show "strip_span opn cls s = s" by (simp add: strip_span_strips)
qed

lemma str_find_mem_iff: "0 \<le> str_find s c \<longleftrightarrow> c \<in> set s"
proof
  assume "0 \<le> str_find s c"
  then show "c \<in> set s" using str_find_notin [of c s] by (cases "c \<in> set s") simp_all
next
  assume "c \<in> set s"
  then show "0 \<le> str_find s c" by (rule str_find_in)
qed

lemma order_filter:
  assumes "opn \<noteq> cls"
  shows "(0 \<le> str_find s opn \<and> str_find s opn < str_find s cls) \<longleftrightarrow>
         (\<exists>rest. filter (\<lambda>c. c = opn \<or> c = cls) s = opn # rest \<and> cls \<in> set rest)"
proof (induction s)
  case Nil
  then show ?case by simp
next
  case (Cons x xs)
  consider "x = opn" | "x = cls" | "x \<noteq> opn" "x \<noteq> cls" by blast
  then show ?case
  proof cases
    case 1
    have "0 < str_find (opn # xs) cls \<longleftrightarrow> cls \<in> set xs"
      using assms str_find_mem_iff [of xs cls] by (auto simp: Let_def)
    then show ?thesis using 1 assms by auto
  next
    case 2
    then show ?thesis using assms by auto
  next
    case 3
    have "(0 \<le> str_find (x # xs) opn \<and> str_find (x # xs) opn < str_find (x # xs) cls) \<longleftrightarrow>
          (0 \<le> str_find xs opn \<and> str_find xs opn < str_find xs cls)"
      using 3 str_find_ge [of xs opn] str_find_ge [of xs cls] by (auto simp: Let_def)
    then show ?thesis using 3 Cons.IH by simp
  qed
qed

lemma str_find_pos: "0 < str_find s c \<longleftrightarrow> (0 \<le> str_find s c \<and> s \<noteq> [] \<and> hd s \<noteq> c)"
  using str_find_ge [of "tl s" c] by (cases s) (auto simp: Let_def)

lemma strips_filter:
  assumes "opn \<noteq> cls"
  shows "strips opn cls s \<longleftrightarrow>
     (s \<noteq> [] \<and> hd s \<noteq> opn \<and> (\<exists>rest. filter (\<lambda>c. c = opn \<or> c = cls) s = opn # rest \<and> cls \<in> set rest))"
proof -
  have "strips opn cls s \<longleftrightarrow> (s \<noteq> [] \<and> hd s \<noteq> opn \<and> 0 \<le> str_find s opn \<and> str_find s opn < str_find s cls)"
    unfolding strips_def using str_find_pos [of s opn] by auto
  then show ?thesis using order_filter [OF assms, of s] by blast
qed

lemma strips_open_in: "strips opn cls s \<Longrightarrow> opn \<in> set s"
  using str_find_notin [of opn s] by (auto simp: strips_def)

lemma strips_close_in: "strips opn cls s \<Longrightarrow> cls \<in> set s"
  using str_find_notin [of cls s] by (auto simp: strips_def)

lemma count_strip_span_le:
  assumes "opn \<noteq> cls"
  shows "count_list (strip_span opn cls s) x \<le> count_list s x"
  using strip_span_cases [OF assms, of s] by auto

lemma strip_span_removes_open:
  assumes "opn \<noteq> cls" "count_list s opn \<le> 1" "strip_span opn cls s \<noteq> s"
  shows "opn \<notin> set (strip_span opn cls s)"
proof -
  from strip_span_cases [OF assms(1), of s] assms(3)
  obtain pre mid post where d: "s = pre @ opn # mid @ cls # post" "strip_span opn cls s = pre @ post"
    by auto
  have "count_list s opn = count_list pre opn + 1 + count_list mid opn + count_list post opn"
    using assms(1) by (simp add: d(1))
  with assms(2) have "count_list pre opn = 0" "count_list post opn = 0" by simp_all
  then show ?thesis by (simp add: d(2) count_list_0_iff)
qed

lemma strip_span_idem:
  assumes "opn \<noteq> cls" "count_list s opn \<le> 1"
  shows "strip_span opn cls (strip_span opn cls s) = strip_span opn cls s"
proof (cases "strip_span opn cls s = s")
  case True
  then show ?thesis by simp
next
  case False
  then show ?thesis using strip_span_removes_open [OF assms] by (simp add: strip_span_no_open)
qed

lemma strip_span_keeps_fix:
  assumes oc: "opn \<noteq> cls" and oc2: "o2 \<noteq> c2"
    and cnt: "count_list s opn \<le> 1" "count_list s cls \<le> 1"
    and unch: "strip_span opn cls s = s"
  shows "strip_span opn cls (strip_span o2 c2 s) = strip_span o2 c2 s"
proof (rule ccontr)
  let ?P = "\<lambda>c. c = opn \<or> c = cls"
  assume neq: "strip_span opn cls (strip_span o2 c2 s) \<noteq> strip_span o2 c2 s"
  then have st: "strips opn cls (strip_span o2 c2 s)" by (simp add: strip_span_fix_iff)
  have ns: "\<not> strips opn cls s" using unch by (simp add: strip_span_fix_iff)
  from st ns have "strip_span o2 c2 s \<noteq> s" by auto
  with strip_span_cases [OF oc2, of s]
  obtain pre mid post where d: "s = pre @ o2 # mid @ c2 # post" "pre \<noteq> []" "strip_span o2 c2 s = pre @ post"
    by auto
  have inO: "opn \<in> set (pre @ post)" and inC: "cls \<in> set (pre @ post)"
    using st strips_open_in strips_close_in d(3) by metis+
  have cO: "count_list (pre @ post) opn \<ge> 1" using inO count_list_0_iff [of "pre @ post" opn] by (metis One_nat_def Suc_leI neq0_conv)
  have cC: "count_list (pre @ post) cls \<ge> 1" using inC count_list_0_iff [of "pre @ post" cls] by (metis One_nat_def Suc_leI neq0_conv)
  have "count_list s opn = count_list (pre @ post) opn + count_list (o2 # mid @ [c2]) opn"
    by (simp add: d(1))
  with cnt(1) cO have mO: "count_list (o2 # mid @ [c2]) opn = 0" by linarith
  have "count_list s cls = count_list (pre @ post) cls + count_list (o2 # mid @ [c2]) cls"
    by (simp add: d(1))
  with cnt(2) cC have mC: "count_list (o2 # mid @ [c2]) cls = 0" by linarith
  have e: "filter ?P (o2 # mid @ [c2]) = []"
    using mO mC unfolding count_list_0_iff by (auto simp: filter_empty_conv)
  have s2: "s = pre @ (o2 # mid @ [c2]) @ post" using d(1) by simp
  have "filter ?P s = filter ?P pre @ filter ?P (o2 # mid @ [c2]) @ filter ?P post"
    by (subst s2) (simp only: filter_append)
  then have fe: "filter ?P s = filter ?P (pre @ post)"
    by (simp only: e append_Nil filter_append)
  have hs: "hd s = hd (pre @ post)" "s \<noteq> []" using d(1,2) by auto
  from st have st': "strips opn cls (pre @ post)" by (simp only: d(3))
  have "hd (pre @ post) \<noteq> opn \<and> (\<exists>rest. filter ?P (pre @ post) = opn # rest \<and> cls \<in> set rest)"
    using st' strips_filter [OF oc, of "pre @ post"] by blast
  then have "s \<noteq> [] \<and> hd s \<noteq> opn \<and> (\<exists>rest. filter ?P s = opn # rest \<and> cls \<in> set rest)"
    using hs fe by simp
  then have "strips opn cls s" using strips_filter [OF oc, of s] by blast
  with ns show False by simp
qed

subsection \<open>More on the decimal rendering and on the stripping rules\<close>

lemma str_nat_nonempty: "str_nat n \<noteq> []"
  by (subst str_nat.simps) simp

lemma str_nat_zero: "str_nat 0 = ''0''"
  by (subst str_nat.simps) simp

lemma digit_nth_nonzero: "0 < d \<Longrightarrow> d < 10 \<Longrightarrow> ''0123456789'' ! d \<noteq> CHR ''0''"
proof -
  assume "0 < d" "d < 10"
  then have "d \<in> {1,2,3,4,5,6,7,8,9}" by auto
  then show ?thesis by auto
qed

lemma str_nat_no_leading_zero: "0 < n \<Longrightarrow> hd (str_nat n) \<noteq> CHR ''0''"
proof (induction n rule: str_nat.induct)
  case (1 n)
  show ?case
  proof (cases "n < 10")
    case True
    then show ?thesis using 1(2) digit_nth_nonzero [of n] by (subst str_nat.simps) simp
  next
    case False
    then have "0 < n div 10" by simp
    then have "hd (str_nat (n div 10)) \<noteq> CHR ''0''" using 1(1) False by simp
    then show ?thesis using False str_nat_nonempty [of "n div 10"] by (subst str_nat.simps) simp
  qed
qed

lemma str_nat_canonical: "str_nat n = ''0'' \<or> hd (str_nat n) \<noteq> CHR ''0''"
  using str_nat_zero str_nat_no_leading_zero [of n] by (cases "n = 0") auto

lemma fmt_d_shape:
  "\<exists>ds. fmt_d n = (if n < 0 then ''-'' else '''') @ ds \<and> ds \<noteq> [] \<and>
        set ds \<subseteq> set ''0123456789'' \<and> (ds = ''0'' \<or> hd ds \<noteq> CHR ''0'') \<and>
        int (dec_value ds) = \<bar>n\<bar>"
proof (cases "n < 0")
  case True
  have "fmt_d n = (if n < 0 then ''-'' else '''') @ str_nat (nat (- n))"
    using True by (simp add: fmt_d_def)
  moreover have "int (dec_value (str_nat (nat (- n)))) = \<bar>n\<bar>"
    using True by (simp add: dec_value_str_nat)
  ultimately show ?thesis
    using str_nat_nonempty str_nat_digits str_nat_canonical by blast
next
  case False
  have "fmt_d n = (if n < 0 then ''-'' else '''') @ str_nat (nat n)"
    using False by (simp add: fmt_d_def)
  moreover have "int (dec_value (str_nat (nat n))) = \<bar>n\<bar>"
    using False by (simp add: dec_value_str_nat)
  ultimately show ?thesis
    using str_nat_nonempty str_nat_digits str_nat_canonical by blast
qed

lemma str_find_le_first: "str_find (pre @ c # rest) c \<le> int (length pre)"
  by (induction pre) (auto simp: Let_def)

lemma str_find_after:
  "c \<notin> set pre \<Longrightarrow> c \<noteq> d \<Longrightarrow>
   str_find (pre @ d # rest) c = - 1 \<or> int (length pre) < str_find (pre @ d # rest) c"
proof (induction pre)
  case Nil
  then show ?case using str_find_ge [of rest c] by (auto simp: Let_def)
next
  case (Cons a pre)
  then show ?case by (auto simp: Let_def)
qed

lemma strip_span_close_first:
  assumes "opn \<notin> set pre" "opn \<noteq> cls"
  shows "strip_span opn cls (pre @ cls # rest) = pre @ cls # rest"
  using str_find_le_first [of pre cls rest] str_find_after [OF assms, of rest]
  by (auto simp: strip_span_def Let_def)

subsection \<open>Claims about the pure helpers\<close>

text \<open>
  C5. \<open>get_duration\<close> returns a string for every pair of timestamps: the empty string
  when either endpoint is \<open>None\<close>; otherwise the rendering by \<open>%d\<close> of the whole seconds
  of the difference, a dot, exactly six decimal digits that denote the remaining
  microseconds, and the letter \<open>s\<close>. The whole seconds are the days of the \<open>timedelta\<close>
  converted to seconds plus its seconds, that is, the difference in microseconds
  divided by a million and rounded down. Their rendering is a minus sign when the end
  lies before the start, followed by the decimal digits of the absolute value without
  leading zeros. Equal endpoints give \<open>0.000000s\<close>.
\<close>

theorem get_duration_total:
  "get_duration (None, e) = '''' \<and>
   get_duration (s, None) = '''' \<and>
   get_duration (Some t, Some t) = ''0.000000s'' \<and>
   (\<exists>secs frac.
      get_duration (Some a, Some b) =
        fmt_d (days (datetime_sub b a) * DAY_SECONDS + seconds (datetime_sub b a)) @ ''.'' @ frac @ ''s'' \<and>
      get_duration (Some a, Some b) = (if b < a then ''-'' else '''') @ secs @ ''.'' @ frac @ ''s'' \<and>
      days (datetime_sub b a) * DAY_SECONDS + seconds (datetime_sub b a) = (b - a) div 1000000 \<and>
      secs \<noteq> [] \<and> set secs \<subseteq> set ''0123456789'' \<and> (secs = ''0'' \<or> hd secs \<noteq> CHR ''0'') \<and>
      int (dec_value secs) = \<bar>(b - a) div 1000000\<bar> \<and>
      length frac = 6 \<and> set frac \<subseteq> set ''0123456789'' \<and>
      int (dec_value frac) = (b - a) mod 1000000)"
proof -
  have 1: "get_duration (None, e) = ''''" by (simp add: get_duration_def)
  have 2: "get_duration (s, None) = ''''" by (cases s) (simp_all add: get_duration_def)
  have 3: "get_duration (Some t, Some t) = ''0.000000s''"
    by (simp add: get_duration_def datetime_sub_def DAY_SECONDS_def fmt_d_def fmt_06d_def str_nat.simps replicate5)
  let ?n = "(b - a) div 1000000"
  let ?m = "(b - a) mod 1000000"
  have m: "0 \<le> ?m" "?m < 1000000" by simp_all
  have 5: "days (datetime_sub b a) * DAY_SECONDS + seconds (datetime_sub b a) = ?n"
    using whole_seconds [of "b - a"] by (simp add: datetime_sub_def DAY_SECONDS_def)
  have 4: "get_duration (Some a, Some b) =
        fmt_d (days (datetime_sub b a) * DAY_SECONDS + seconds (datetime_sub b a)) @ ''.'' @ fmt_06d ?m @ ''s''"
    by (simp add: get_duration_def datetime_sub_def Let_def)
  have sg: "?n < 0 \<longleftrightarrow> b < a" by (simp add: pos_imp_zdiv_neg_iff)
  from fmt_d_shape [of ?n] obtain secs where secs:
    "fmt_d ?n = (if ?n < 0 then ''-'' else '''') @ secs" "secs \<noteq> []"
    "set secs \<subseteq> set ''0123456789''" "secs = ''0'' \<or> hd secs \<noteq> CHR ''0''"
    "int (dec_value secs) = \<bar>?n\<bar>"
    by blast
  have 6: "get_duration (Some a, Some b) = (if b < a then ''-'' else '''') @ secs @ ''.'' @ fmt_06d ?m @ ''s''"
    using 4 5 secs(1) sg by simp
  show ?thesis using 1 2 3 4 5 6 secs(2-5) fmt_06d_micro [OF m] by blast
qed

text \<open>
  The formatter at concrete timestamps (in microseconds): one second apart, more than a
  day apart, the end half a second before the start, an endpoint missing, and equal
  endpoints.
\<close>

theorem get_duration_total_witness:
  "get_duration (Some 1000000, Some 2000000) = ''1.000000s'' \<and>
   get_duration (Some 0, Some 90000000001) = ''90000.000001s'' \<and>
   get_duration (Some 500000, Some 0) = ''-1.500000s'' \<and>
   get_duration (None, Some 5) = '''' \<and> get_duration (Some 5, None) = '''' \<and>
   get_duration (Some 7, Some 7) = ''0.000000s''"
proof -
  have a: "get_duration (Some 1000000, Some 2000000) = ''1.000000s''"
    by (simp add: get_duration_def datetime_sub_def DAY_SECONDS_def fmt_d_def fmt_06d_def str_nat.simps replicate5)
  have b: "get_duration (Some 0, Some 90000000001) = ''90000.000001s''"
    by (simp add: get_duration_def datetime_sub_def DAY_SECONDS_def fmt_d_def fmt_06d_def str_nat.simps replicate5)
  have c: "get_duration (Some 500000, Some 0) = ''-1.500000s''"
    by (simp add: get_duration_def datetime_sub_def DAY_SECONDS_def fmt_d_def fmt_06d_def str_nat.simps replicate5)
  show ?thesis
    using a b c get_duration_total [of "Some 5" "Some 5" 7 0 0] by simp
qed

text \<open>
  C6, as the code has it. Each rule looks only at the first opening and the first closing
  delimiter of the string. It cuts from the first opening delimiter to the first closing
  delimiter (both included) when the first opening delimiter is not at position 0 and no
  closing delimiter stands before it while one stands after it. The string is left
  unchanged in every other case: when it starts with the opening delimiter, when a
  closing delimiter stands before the first opening delimiter (whatever follows), when
  no closing delimiter follows the first opening delimiter, and when it has no opening
  delimiter. The tag rule is \<open>cleanup_test_name name True False\<close>, the scenario rule
  \<open>cleanup_test_name name False True\<close>.
\<close>

theorem cleanup_test_name_rule:
  "(pre \<noteq> [] \<and> CHR ''['' \<notin> set pre \<and> CHR '']'' \<notin> set pre \<and> CHR '']'' \<notin> set mid \<longrightarrow>
      cleanup_test_name (pre @ CHR ''['' # mid @ CHR '']'' # post) True False = pre @ post) \<and>
   cleanup_test_name (CHR ''['' # rest) True False = CHR ''['' # rest \<and>
   (CHR ''['' \<notin> set pre \<longrightarrow>
      cleanup_test_name (pre @ CHR '']'' # rest) True False = pre @ CHR '']'' # rest) \<and>
   (CHR ''['' \<notin> set pre \<and> CHR '']'' \<notin> set rest \<longrightarrow>
      cleanup_test_name (pre @ CHR ''['' # rest) True False = pre @ CHR ''['' # rest) \<and>
   (CHR ''['' \<notin> set name \<longrightarrow> cleanup_test_name name True False = name) \<and>
   (pre \<noteq> [] \<and> CHR ''('' \<notin> set pre \<and> CHR '')'' \<notin> set pre \<and> CHR '')'' \<notin> set mid \<longrightarrow>
      cleanup_test_name (pre @ CHR ''('' # mid @ CHR '')'' # post) False True = pre @ post) \<and>
   cleanup_test_name (CHR ''('' # rest) False True = CHR ''('' # rest \<and>
   (CHR ''('' \<notin> set pre \<longrightarrow>
      cleanup_test_name (pre @ CHR '')'' # rest) False True = pre @ CHR '')'' # rest) \<and>
   (CHR ''('' \<notin> set pre \<and> CHR '')'' \<notin> set rest \<longrightarrow>
      cleanup_test_name (pre @ CHR ''('' # rest) False True = pre @ CHR ''('' # rest) \<and>
   (CHR ''('' \<notin> set name \<longrightarrow> cleanup_test_name name False True = name)"
proof -
  have b: "CHR ''['' \<noteq> CHR '']''" and p: "CHR ''('' \<noteq> CHR '')''" by simp_all
  have t: "cleanup_test_name x True False = strip_span CHR ''['' CHR '']'' x" for x
    by (simp add: cleanup_test_name_spans)
  have s: "cleanup_test_name x False True = strip_span CHR ''('' CHR '')'' x" for x
    by (simp add: cleanup_test_name_spans)
  have 1: "pre \<noteq> [] \<and> CHR ''['' \<notin> set pre \<and> CHR '']'' \<notin> set pre \<and> CHR '']'' \<notin> set mid \<longrightarrow>
      strip_span CHR ''['' CHR '']'' (pre @ CHR ''['' # mid @ CHR '']'' # post) = pre @ post"
    using strip_span_cut [of pre "CHR ''[''" "CHR '']''" mid post] b by blast
  have 2: "pre \<noteq> [] \<and> CHR ''('' \<notin> set pre \<and> CHR '')'' \<notin> set pre \<and> CHR '')'' \<notin> set mid \<longrightarrow>
      strip_span CHR ''('' CHR '')'' (pre @ CHR ''('' # mid @ CHR '')'' # post) = pre @ post"
    using strip_span_cut [of pre "CHR ''(''" "CHR '')''" mid post] p by blast
  have 3: "CHR ''['' \<notin> set pre \<and> CHR '']'' \<notin> set rest \<longrightarrow>
      strip_span CHR ''['' CHR '']'' (pre @ CHR ''['' # rest) = pre @ CHR ''['' # rest"
    using strip_span_no_close_after [of "CHR ''[''" pre "CHR '']''" rest] b by blast
  have 4: "CHR ''('' \<notin> set pre \<and> CHR '')'' \<notin> set rest \<longrightarrow>
      strip_span CHR ''('' CHR '')'' (pre @ CHR ''('' # rest) = pre @ CHR ''('' # rest"
    using strip_span_no_close_after [of "CHR ''(''" pre "CHR '')''" rest] p by blast
  have 5: "CHR ''['' \<notin> set name \<longrightarrow> strip_span CHR ''['' CHR '']'' name = name"
    using strip_span_no_open [of "CHR ''[''" name "CHR '']''"] by blast
  have 6: "CHR ''('' \<notin> set name \<longrightarrow> strip_span CHR ''('' CHR '')'' name = name"
    using strip_span_no_open [of "CHR ''(''" name "CHR '')''"] by blast
  have 7: "strip_span CHR ''['' CHR '']'' (CHR ''['' # rest) = CHR ''['' # rest"
    by (rule strip_span_open_first)
  have 8: "strip_span CHR ''('' CHR '')'' (CHR ''('' # rest) = CHR ''('' # rest"
    by (rule strip_span_open_first)
  have 9: "CHR ''['' \<notin> set pre \<longrightarrow>
      strip_span CHR ''['' CHR '']'' (pre @ CHR '']'' # rest) = pre @ CHR '']'' # rest"
    using strip_span_close_first [of "CHR ''[''" pre "CHR '']''" rest] b by blast
  have 10: "CHR ''('' \<notin> set pre \<longrightarrow>
      strip_span CHR ''('' CHR '')'' (pre @ CHR '')'' # rest) = pre @ CHR '')'' # rest"
    using strip_span_close_first [of "CHR ''(''" pre "CHR '')''" rest] p by blast
  show ?thesis unfolding t s using 1 2 3 4 5 6 7 8 9 10 by blast
qed

text \<open>The rules of C6 at concrete names, one for each case.\<close>

theorem cleanup_test_name_rule_witness:
  "cleanup_test_name ''test_foo[tag1,tag2]'' True False = ''test_foo'' \<and>
   cleanup_test_name ''[smoke]test_foo'' True False = ''[smoke]test_foo'' \<and>
   cleanup_test_name ''x]y[z]'' True False = ''x]y[z]'' \<and>
   cleanup_test_name ''a[b'' True False = ''a[b'' \<and>
   cleanup_test_name ''test_foo'' True False = ''test_foo'' \<and>
   cleanup_test_name ''test_foo(scn)bar'' False True = ''test_foobar'' \<and>
   cleanup_test_name ''(scn)'' False True = ''(scn)'' \<and>
   cleanup_test_name ''x)y(z)'' False True = ''x)y(z)'' \<and>
   cleanup_test_name ''a(b'' False True = ''a(b'' \<and>
   cleanup_test_name ''test_foo'' False True = ''test_foo''"
proof -
  have a: "cleanup_test_name ''test_foo[tag1,tag2]'' True False = ''test_foo'' \<and>
           cleanup_test_name ''[smoke]test_foo'' True False = ''[smoke]test_foo'' \<and>
           cleanup_test_name ''test_foo'' True False = ''test_foo''"
    using cleanup_test_name_rule
      [of "''test_foo''" "''tag1,tag2''" "''''" "''smoke]test_foo''" "''test_foo''"]
    by simp
  have b: "cleanup_test_name ''x]y[z]'' True False = ''x]y[z]''"
    using cleanup_test_name_rule [of "''x''" "''''" "''''" "''y[z]''" "''test_foo''"]
    by simp
  have c: "cleanup_test_name ''a[b'' True False = ''a[b''"
    using cleanup_test_name_rule [of "''a''" "''''" "''''" "''b''" "''test_foo''"]
    by simp
  have d: "cleanup_test_name ''test_foo(scn)bar'' False True = ''test_foobar'' \<and>
           cleanup_test_name ''(scn)'' False True = ''(scn)'' \<and>
           cleanup_test_name ''test_foo'' False True = ''test_foo''"
    using cleanup_test_name_rule
      [of "''test_foo''" "''scn''" "''bar''" "''scn)''" "''test_foo''"]
    by simp
  have e: "cleanup_test_name ''x)y(z)'' False True = ''x)y(z)''"
    using cleanup_test_name_rule [of "''x''" "''''" "''''" "''y(z)''" "''test_foo''"]
    by simp
  have f: "cleanup_test_name ''a(b'' False True = ''a(b''"
    using cleanup_test_name_rule [of "''a''" "''''" "''''" "''b''" "''test_foo''"]
    by simp
  show ?thesis using a b c d e f by blast
qed

text \<open>
  C6 as the specification words it fails: the name below contains an opening bracket at
  position 3 and a closing bracket after it at position 5, and the opening bracket is
  not at position 0, yet the span \<open>[z]\<close> is not removed, because the first closing
  bracket of the string stands before the opening one.
\<close>

theorem cleanup_test_name_rule_counterexample:
  "''x]y[z]'' = ''x]y'' @ CHR ''['' # ''z'' @ CHR '']'' # '''' \<and>
   cleanup_test_name ''x]y[z]'' True False \<noteq> ''x]y'' @ '''' \<and>
   cleanup_test_name ''x]y[z]'' True False = ''x]y[z]''"
  by (simp add: cleanup_test_name_def)

text \<open>
  C7, as the code has it. Each rule cuts one span, the first. Applying the normaliser to
  its own output returns that output unchanged
  \<^item> for every name when both switches are off;
  \<^item> when tags are stripped (the default), for every name with at most one \<open>[\<close>;
  \<^item> when scenarios are stripped, for every name with at most one \<open>(\<close>;
  \<^item> when both are stripped, for every name with at most one \<open>[\<close>, one \<open>(\<close> and
    one \<open>]\<close>.
\<close>

theorem cleanup_test_name_idem:
  assumes "st \<longrightarrow> count_list name CHR ''['' \<le> 1"
    and "ss \<longrightarrow> count_list name CHR ''('' \<le> 1"
    and "st \<and> ss \<longrightarrow> count_list name CHR '']'' \<le> 1"
  shows "cleanup_test_name (cleanup_test_name name st ss) st ss = cleanup_test_name name st ss"
proof -
  let ?f = "strip_span CHR ''['' CHR '']''" and ?g = "strip_span CHR ''('' CHR '')''"
  have b: "CHR ''['' \<noteq> CHR '']''" and p: "CHR ''('' \<noteq> CHR '')''" by simp_all
  have ff: "?f (?f name) = ?f name" if "st"
    using strip_span_idem [OF b] assms(1) that by blast
  have gg: "?g (?g name) = ?g name" if "ss"
    using strip_span_idem [OF p] assms(2) that by blast
  have gfgf: "?g (?f (?g (?f name))) = ?g (?f name)" if both: "st" "ss"
  proof -
    have c1: "count_list name CHR ''['' \<le> 1" and c2: "count_list name CHR '']'' \<le> 1"
      and c3: "count_list name CHR ''('' \<le> 1"
      using assms both by blast+
    have cf: "count_list (?f name) CHR ''('' \<le> 1"
      using count_strip_span_le [OF b, of name "CHR ''(''"] c3 by linarith
    have ggf: "?g (?g (?f name)) = ?g (?f name)" using strip_span_idem [OF p cf] .
    have "?f (?g (?f name)) = ?g (?f name)"
    proof (cases "?f name = name")
      case True
      then show ?thesis using strip_span_keeps_fix [OF b p c1 c2] by simp
    next
      case False
      then have "CHR ''['' \<notin> set (?f name)" using strip_span_removes_open [OF b c1] by simp
      moreover have "count_list (?g (?f name)) CHR ''['' \<le> count_list (?f name) CHR ''[''"
        by (rule count_strip_span_le [OF p])
      ultimately have "CHR ''['' \<notin> set (?g (?f name))" by (simp add: count_list_0_iff [symmetric])
      then show ?thesis by (rule strip_span_no_open)
    qed
    then show ?thesis using ggf by simp
  qed
  show ?thesis
  proof (cases st; cases ss)
    assume "st" "ss"
    then show ?thesis using gfgf by (simp add: cleanup_test_name_spans)
  next
    assume "st" "\<not> ss"
    then show ?thesis using ff by (simp add: cleanup_test_name_spans)
  next
    assume "\<not> st" "ss"
    then show ?thesis using gg by (simp add: cleanup_test_name_spans)
  next
    assume "\<not> st" "\<not> ss"
    then show ?thesis by (simp add: cleanup_test_name_spans)
  qed
qed

text \<open>
  The four settings of the switches: a name with two tag groups and two scenario groups
  with both switches off, a name with one tag group and stray closing brackets with the
  default switches, a name with one scenario group, and a name with one group of each
  kind with both switches on.
\<close>

theorem cleanup_test_name_idem_witness:
  "cleanup_test_name (cleanup_test_name ''a[b][c](d)(e)'' False False) False False =
     cleanup_test_name ''a[b][c](d)(e)'' False False \<and>
   count_list ''test_foo[smoke]]]'' CHR ''['' \<le> 1 \<and>
   cleanup_test_name ''test_foo[smoke]]]'' True False = ''test_foo]]'' \<and>
   cleanup_test_name (cleanup_test_name ''test_foo[smoke]]]'' True False) True False =
     cleanup_test_name ''test_foo[smoke]]]'' True False \<and>
   count_list ''test_foo(scn)[a][b]'' CHR ''('' \<le> 1 \<and>
   cleanup_test_name (cleanup_test_name ''test_foo(scn)[a][b]'' False True) False True =
     cleanup_test_name ''test_foo(scn)[a][b]'' False True \<and>
   count_list ''test_foo[smoke](scn))'' CHR ''['' \<le> 1 \<and>
   count_list ''test_foo[smoke](scn))'' CHR ''('' \<le> 1 \<and>
   count_list ''test_foo[smoke](scn))'' CHR '']'' \<le> 1 \<and>
   cleanup_test_name ''test_foo[smoke](scn))'' True True = ''test_foo)'' \<and>
   cleanup_test_name (cleanup_test_name ''test_foo[smoke](scn))'' True True) True True =
     cleanup_test_name ''test_foo[smoke](scn))'' True True"
proof -
  have c1: "count_list ''test_foo[smoke]]]'' CHR ''['' \<le> 1" by simp
  have c2: "count_list ''test_foo(scn)[a][b]'' CHR ''('' \<le> 1" by simp
  have c3: "count_list ''test_foo[smoke](scn))'' CHR ''['' \<le> 1"
           "count_list ''test_foo[smoke](scn))'' CHR ''('' \<le> 1"
           "count_list ''test_foo[smoke](scn))'' CHR '']'' \<le> 1"
    by simp_all
  have v1: "cleanup_test_name ''test_foo[smoke]]]'' True False = ''test_foo]]''"
    by (simp add: cleanup_test_name_def)
  have v3: "cleanup_test_name ''test_foo[smoke](scn))'' True True = ''test_foo)''"
    by (simp add: cleanup_test_name_def)
  have i0: "cleanup_test_name (cleanup_test_name ''a[b][c](d)(e)'' False False) False False =
     cleanup_test_name ''a[b][c](d)(e)'' False False"
    by (rule cleanup_test_name_idem) simp_all
  have i1: "cleanup_test_name (cleanup_test_name ''test_foo[smoke]]]'' True False) True False =
     cleanup_test_name ''test_foo[smoke]]]'' True False"
    using c1 by (intro cleanup_test_name_idem) simp_all
  have i2: "cleanup_test_name (cleanup_test_name ''test_foo(scn)[a][b]'' False True) False True =
     cleanup_test_name ''test_foo(scn)[a][b]'' False True"
    using c2 by (intro cleanup_test_name_idem) simp_all
  have i3: "cleanup_test_name (cleanup_test_name ''test_foo[smoke](scn))'' True True) True True =
     cleanup_test_name ''test_foo[smoke](scn))'' True True"
    using c3 by (intro cleanup_test_name_idem) simp_all
  show ?thesis using c1 c2 c3 v1 v3 i0 i1 i2 i3 by blast
qed

text \<open>
  C7 as the specification words it fails. With the default switches and two tag groups,
  the first pass removes the first group and a second pass removes the next one. The
  same holds for two scenario groups when scenarios are stripped. With both switches on,
  one group of each kind is not enough when a second \<open>]\<close> stands inside the scenario
  group: the first pass removes the scenario group only, and the second pass then
  removes the tag group.
\<close>

theorem cleanup_test_name_idem_counterexample:
  "cleanup_test_name ''a[b][c]'' True False = ''a[c]'' \<and>
   cleanup_test_name (cleanup_test_name ''a[b][c]'' True False) True False = ''a'' \<and>
   cleanup_test_name (cleanup_test_name ''a[b][c]'' True False) True False \<noteq>
     cleanup_test_name ''a[b][c]'' True False \<and>
   cleanup_test_name (cleanup_test_name ''a(b)(c)'' False True) False True \<noteq>
     cleanup_test_name ''a(b)(c)'' False True \<and>
   cleanup_test_name ''a(])[b]'' True True = ''a[b]'' \<and>
   cleanup_test_name (cleanup_test_name ''a(])[b]'' True True) True True = ''a'' \<and>
   cleanup_test_name (cleanup_test_name ''a(])[b]'' True True) True True \<noteq>
     cleanup_test_name ''a(])[b]'' True True"
  by (simp add: cleanup_test_name_def)

subsection \<open>Helper lemmas: the tracker, the buckets, the worker, the attachments\<close>

lemma Starts_content_keeps:
  "start_count i (fst (state_of (Starts_content X st ev))) = start_count i (fst st) \<and>
   emitted (snd (state_of (Starts_content X st ev))) = emitted (snd st)"
  by (cases st)
     (auto simp: Starts_content_def start_count_def Let_def split: option.splits sum.splits prod.splits)

lemma Starts_status_inv:
  assumes "starts_inv st"
  shows "starts_inv (state_of (Starts_status X st ev))"
proof (cases "test_id ev")
  case None
  then show ?thesis using assms Starts_content_keeps [of _ X st ev]
    by (simp add: Starts_status_def starts_inv_def)
next
  case (Some tid)
  show ?thesis
  proof (cases "tid \<noteq> [] \<and> test_status ev = Some ''inprogress'' \<and> tid \<notin> emitted (snd st)")
    case False
    then show ?thesis using Some assms Starts_content_keeps [of _ X st ev]
      by (auto simp: Starts_status_def starts_inv_def)
  next
    case True
    have "start_count tid (fst st) \<le> (if tid \<in> emitted (snd st) then 1 else 0)"
      using assms unfolding starts_inv_def by blast
    then have z: "start_count tid (fst st) = 0" using True by simp
    show ?thesis unfolding starts_inv_def
    proof
      fix i
      show "start_count i (fst (state_of (Starts_status X st ev)))
            \<le> (if i \<in> emitted (snd (state_of (Starts_status X st ev))) then 1 else 0)"
        using Some True z assms [unfolded starts_inv_def, rule_format, of i]
        by (cases "i = tid")
           (auto simp: Starts_status_def start_count_def Let_def split: option.splits)
    qed
  qed
qed

lemma Starts_run_inv:
  "starts_inv st \<Longrightarrow> starts_inv (state_of (Starts_run X st evs))"
proof (induction evs arbitrary: st)
  case Nil
  then show ?case by simp
next
  case (Cons ev evs)
  from Cons.prems have i: "starts_inv (state_of (Starts_status X st ev))" by (rule Starts_status_inv)
  show ?case
  proof (cases "Starts_status X st ev")
    case (Return st')
    with i Cons.IH [of st'] show ?thesis by simp
  next
    case (Raised e st')
    with i show ?thesis by simp
  qed
qed

lemma bucket_total_dict_set:
  "bucket_total (dict_set w (bucket R w @ [t]) R) = Suc (bucket_total R)"
proof (induction R)
  case Nil
  then show ?case by (simp add: bucket_total_def bucket_def)
next
  case (Cons p R)
  obtain k v where p: "p = (k, v)" by (cases p)
  show ?case
  proof (cases "k = w")
    case True
    then show ?thesis using p by (simp add: bucket_total_def bucket_def)
  next
    case False
    have "bucket ((k, v) # R) w = bucket R w" using False by (simp add: bucket_def)
    then show ?thesis using False p Cons.IH by (simp add: bucket_total_def)
  qed
qed

lemma map_of_dict_set: "map_of (dict_set k v d) k' = (if k' = k then Some v else map_of d k')"
  by (induction d) auto

lemma dict_set_twice: "dict_set k v (dict_set k v' d) = dict_set k v d"
  by (induction d) auto

lemma bucket_results_append:
  "bucket (results_append R w t) w' = (if w' = w then bucket R w @ [t] else bucket R w')"
  by (simp add: bucket_def results_append_def map_of_dict_set)

lemma alias_record_appended:
  assumes "RESULTS q = results_append (RESULTS p) w t"
    and "FAILS q = (if failed then FAILS p @ [t] else FAILS p)"
  shows "alias_record (q\<lparr> stdout := out \<rparr>) w failed t' =
         q\<lparr> stdout := out, RESULTS := results_append (RESULTS p) w t',
            FAILS := (if failed then FAILS p @ [t'] else FAILS p) \<rparr>"
proof -
  have "bucket (RESULTS q) w = bucket (RESULTS p) w @ [t]"
    using assms(1) by (simp add: bucket_results_append)
  then have "dict_set w (set_last t' (bucket (RESULTS q) w)) (RESULTS q)
             = results_append (RESULTS p) w t'"
    using assms(1) by (simp add: set_last_def results_append_def dict_set_twice)
  then show ?thesis using assms(2) by (simp add: alias_record_def set_last_def)
qed

lemma after_print_stored:
  assumes "RESULTS q = results_append (RESULTS p) w t"
    and "FAILS q = (if failed then FAILS p @ [t] else FAILS p)"
    and "stdout q = s"
  shows "after_print q w failed t r = stored (p\<lparr> stdout := s \<rparr>) w failed t r"
proof -
  have e: "q\<lparr> stdout := out, RESULTS := R, FAILS := F \<rparr> = p\<lparr> stdout := out, RESULTS := R, FAILS := F \<rparr>"
    for out R F
    by simp
  show ?thesis
    by (cases r) (simp_all add: alias_record_appended [OF assms(1,2)] stored_state_def e)
qed

text \<open>
  \<open>show_outcome\<close> said from the state before the call: in the printing branches the
  record reaches the bucket, and the failure list, as \<open>print_attachments\<close> leaves it.
\<close>

lemma show_outcome_stored:
  "show_outcome X p t =
     (if t_status t = ''exists'' then Return p
      else
        (case find_worker t of
           Inl e \<Rightarrow> Raised e p
         | Inr w \<Rightarrow>
             (if cleanup_test_name (t_id t) True False = ''process-returncode''
              then Return (p\<lparr> RESULTS := results_append (RESULTS p) w t \<rparr>)
              else if t_status t = ''success'' then
                stored p w False t
                  (print_attachments X
                     (stdout p @ [Text (''{'' @ str_worker w @ ''} '' @ cleanup_test_name (t_id t) True False @
                        '' ['' @ get_duration (t_timestamps t) @ ''] ... ok'' @ [CHR 0x0A])]) t False)
              else if t_status t = ''fail'' then
                stored p w True t
                  (print_attachments X
                     (stdout p @ [Text (''{'' @ str_worker w @ ''} '' @ cleanup_test_name (t_id t) True False @
                        '' ['' @ get_duration (t_timestamps t) @ ''] ... FAILED'' @ [CHR 0x0A])]) t True)
              else if t_status t = ''skip'' then
                (case map_of (t_details t) ''reason'' of
                   None \<Rightarrow> Raised KeyError (p\<lparr> RESULTS := results_append (RESULTS p) w t \<rparr>)
                 | Some reason \<Rightarrow>
                     (case as_text X reason of
                        Inl e \<Rightarrow> Raised e (p\<lparr> RESULTS := results_append (RESULTS p) w t \<rparr>)
                      | Inr body \<Rightarrow>
                          Return (p\<lparr> RESULTS := results_append (RESULTS p) w t,
                                    stdout := stdout p @
                                      [Text (''{'' @ str_worker w @ ''} '' @ cleanup_test_name (t_id t) True False @
                                             '' ... SKIPPED: '' @ body @ [CHR 0x0A])] \<rparr>)))
              else
                stored p w False t
                  (print_attachments X
                     (stdout p @ [Text (''{'' @ str_worker w @ ''} '' @ cleanup_test_name (t_id t) True False @
                        '' ['' @ get_duration (t_timestamps t) @ ''] ... '' @ t_status t @ [CHR 0x0A])]) t True))))"
proof -
  have st: "stored (p\<lparr> stdout := s \<rparr>) w failed t r = stored p w failed t r" for s w failed r
    by (cases r) (simp_all add: stored_state_def)
  have ap: "after_print q w failed t r = stored p w failed t r"
    if "RESULTS q = results_append (RESULTS p) w t"
      and "FAILS q = (if failed then FAILS p @ [t] else FAILS p)"
    for q w failed r
    using after_print_stored [OF that refl, of r] st by simp
  show ?thesis
    by (simp add: show_outcome_def Let_def stream_write_def ap split: sum.splits option.splits)
qed

lemma stored_RESULTS:
  "RESULTS (state_of (stored p w failed t r)) = results_append (RESULTS p) w (t\<lparr> t_details := snd (state_of r) \<rparr>)"
  by (cases r) (simp_all add: stored_state_def)

lemma stored_FAILS:
  "FAILS (state_of (stored p w failed t r)) =
     (if failed then FAILS p @ [t\<lparr> t_details := snd (state_of r) \<rparr>] else FAILS p)"
  by (cases r) (simp_all add: stored_state_def)

lemma results_append_total: "bucket_total (results_append R w t) = Suc (bucket_total R)"
  by (simp add: results_append_def bucket_total_dict_set)

lemma show_outcome_total:
  "bucket_total (RESULTS (state_of (show_outcome X p t))) =
     bucket_total (RESULTS p) +
       (if t_status t = ''exists'' then 0 else (case find_worker t of Inl e \<Rightarrow> 0 | Inr w \<Rightarrow> 1))"
  by (simp add: show_outcome_stored stored_RESULTS results_append_total
      split: sum.splits option.splits)

lemma show_outcome_Return_total:
  assumes "show_outcome X p t = Return p'"
  shows "bucket_total (RESULTS p') = bucket_total (RESULTS p) + (if t_status t = ''exists'' then 0 else 1)"
proof (cases "t_status t = ''exists''")
  case True
  then show ?thesis using assms by (simp add: show_outcome_def)
next
  case False
  then obtain w where w: "find_worker t = Inr w"
    using assms by (cases "find_worker t") (auto simp: show_outcome_def)
  show ?thesis using show_outcome_total [of X p t] assms w False by simp
qed

lemma show_outcomes_total:
  "show_outcomes X p ts = Return p' \<Longrightarrow>
     bucket_total (RESULTS p') =
       bucket_total (RESULTS p) + length (filter (\<lambda>t. t_status t \<noteq> ''exists'') ts)"
proof (induction ts arbitrary: p)
  case Nil
  then show ?case by simp
next
  case (Cons t ts)
  from Cons.prems obtain q where q: "show_outcome X p t = Return q" "show_outcomes X q ts = Return p'"
    by (cases "show_outcome X p t") auto
  from Cons.IH [OF q(2)] show_outcome_Return_total [OF q(1)] show ?case by simp
qed


lemma find_worker_tags_cases:
  "find_worker_tags tags = Inr NaN \<and> list_all (\<lambda>tag. \<not> startswith tag ''worker-'') tags \<or>
   (\<exists>pre tag post. tags = pre @ tag # post \<and> list_all (\<lambda>tag. \<not> startswith tag ''worker-'') pre \<and>
      startswith tag ''worker-'' \<and>
      find_worker_tags tags = (case py_int (drop 7 tag) of None \<Rightarrow> Inl ValueError | Some n \<Rightarrow> Inr (Worker n)))"
proof (induction tags)
  case Nil
  then show ?case by simp
next
  case (Cons a tags)
  show ?case
  proof (cases "startswith a ''worker-''")
    case True
    then have "a # tags = [] @ a # tags \<and> list_all (\<lambda>tag. \<not> startswith tag ''worker-'') [] \<and>
      startswith a ''worker-'' \<and>
      find_worker_tags (a # tags) = (case py_int (drop 7 a) of None \<Rightarrow> Inl ValueError | Some n \<Rightarrow> Inr (Worker n))"
      by simp
    then show ?thesis by blast
  next
    case False
    from Cons.IH show ?thesis
    proof
      assume "find_worker_tags tags = Inr NaN \<and> list_all (\<lambda>tag. \<not> startswith tag ''worker-'') tags"
      then show ?thesis using False by simp
    next
      assume "\<exists>pre tag post. tags = pre @ tag # post \<and> list_all (\<lambda>tag. \<not> startswith tag ''worker-'') pre \<and>
        startswith tag ''worker-'' \<and>
        find_worker_tags tags = (case py_int (drop 7 tag) of None \<Rightarrow> Inl ValueError | Some n \<Rightarrow> Inr (Worker n))"
      then obtain pre tag post where d: "tags = pre @ tag # post"
        "list_all (\<lambda>tag. \<not> startswith tag ''worker-'') pre" "startswith tag ''worker-''"
        "find_worker_tags tags = (case py_int (drop 7 tag) of None \<Rightarrow> Inl ValueError | Some n \<Rightarrow> Inr (Worker n))"
        by blast
      then have "a # tags = (a # pre) @ tag # post \<and> list_all (\<lambda>tag. \<not> startswith tag ''worker-'') (a # pre) \<and>
        startswith tag ''worker-'' \<and>
        find_worker_tags (a # tags) = (case py_int (drop 7 tag) of None \<Rightarrow> Inl ValueError | Some n \<Rightarrow> Inr (Worker n))"
        using False by simp
      then show ?thesis by blast
    qed
  qed
qed

text \<open>
  \<open>py_int\<close> on some remainders of a worker tag: white space around the number, a sign
  and grouped digits are accepted; a control character \<open>0x1F\<close> in front, an inner
  space, a doubled or trailing underscore and the empty string are refused; the
  no-break space \<open>0xA0\<close> is white space.
\<close>

lemma py_int_examples:
  "py_int ''0'' = Some 0 \<and> py_int ''12'' = Some 12 \<and> py_int ''007'' = Some 7 \<and>
   py_int '' 3 '' = Some 3 \<and> py_int ''-4'' = Some (- 4) \<and> py_int ''+5'' = Some 5 \<and>
   py_int ''1_0'' = Some 10 \<and> py_int [CHR 0xA0, CHR ''3''] = Some 3 \<and>
   py_int [CHR ''3'', CHR 0x85] = Some 3 \<and> py_int [CHR 0x09, CHR ''3'', CHR 0x0A] = Some 3 \<and>
   py_int [CHR 0x1F, CHR ''3''] = None \<and> py_int [CHR 0x1C, CHR ''3''] = None \<and>
   py_int '''' = None \<and> py_int ''abc'' = None \<and> py_int ''1 2'' = None \<and>
   py_int ''1__0'' = None \<and> py_int ''1_'' = None \<and> py_int ''_1'' = None \<and>
   py_int ''- 1'' = None \<and> py_int ''--1'' = None \<and> py_int ''0x10'' = None \<and> py_int ''1.5'' = None"
  by (simp add: py_int_def py_strip_def py_space_def is_digit_def dec_value_def digit_val_def)




subsection \<open>Helper lemmas: the run driver\<close>

lemma show_outcome_FAILS:
  "FAILS (state_of (show_outcome X p t)) = FAILS p \<or>
   (t_status t = ''fail'' \<and> FAILS (state_of (show_outcome X p t)) \<noteq> [])"
  by (simp add: show_outcome_stored stored_FAILS split: sum.splits option.splits)

lemma gather_test_Return:
  assumes "gather_test X errs t = Return errs'"
  shows "(errs \<noteq> [] \<longrightarrow> errs' \<noteq> []) \<and> (t_status t = ''fail'' \<longrightarrow> errs' \<noteq> [])"
  using assms
  by (auto simp: gather_test_def Let_def split: if_splits option.splits sum.splits)

lemma covered_step:
  assumes "covered p errs" "show_outcome X p t = Return p'" "gather_test X errs t = Return errs'"
  shows "covered p' errs'"
proof -
  from show_outcome_FAILS [of X p t] assms(2)
  have "FAILS p' = FAILS p \<or> (t_status t = ''fail'' \<and> FAILS p' \<noteq> [])" by simp
  then show ?thesis using assms(1) gather_test_Return [OF assms(3)] by (auto simp: covered_def)
qed

lemma covered_list:
  "covered p errs \<Longrightarrow> show_outcomes X p ts = Return p' \<Longrightarrow> gather_tests X errs ts = Return errs'
   \<Longrightarrow> covered p' errs'"
proof (induction ts arbitrary: p errs)
  case Nil
  then show ?case by simp
next
  case (Cons t ts)
  from Cons.prems(2) obtain q where q: "show_outcome X p t = Return q" "show_outcomes X q ts = Return p'"
    by (cases "show_outcome X p t") auto
  from Cons.prems(3) obtain es where es: "gather_test X errs t = Return es" "gather_tests X es ts = Return errs'"
    by (cases "gather_test X errs t") auto
  from covered_step [OF Cons.prems(1) q(1) es(1)] have "covered q es" .
  then show ?case using Cons.IH q(2) es(2) by blast
qed

lemma starts_step_keeps:
  "outcomes (fst (state_of (starts_step X ev st))) = outcomes (fst st) \<and>
   summary (fst (state_of (starts_step X ev st))) = summary (fst st) \<and>
   errors (fst (state_of (starts_step X ev st))) = errors (fst st) \<and>
   FAILS (snd (state_of (starts_step X ev st))) = FAILS (snd st) \<and>
   RESULTS (snd (state_of (starts_step X ev st))) = RESULTS (snd st)"
  by (simp add: starts_step_def split: result.splits)

lemma CopyStreamResult_status_in_step:
  assumes "in_step st" "CopyStreamResult_status X st ev = Return st'"
  shows "in_step st'"
proof -
  from assms(2) obtain s1 where s1: "starts_step X ev st = Return s1"
    by (cases "starts_step X ev st") (auto simp: CopyStreamResult_status_def)
  from assms(2) s1 obtain s2 where s2: "outcomes_step X ev s1 = Return s2"
    by (cases "outcomes_step X ev s1") (auto simp: CopyStreamResult_status_def)
  from assms(2) s1 s2 have s3: "summary_step X ev s2 = Return st'"
    by (simp add: CopyStreamResult_status_def)
  from starts_step_keeps [of X ev st] s1 assms(1)
  have i1: "outcomes (fst s1) = summary (fst s1)" "covered (snd s1) (errors (fst s1))"
    by (simp_all add: in_step_def covered_def)
  from s2 obtain ir where ir: "StreamToDict_status X (outcomes (fst s1)) ev = Return ir"
    by (cases "StreamToDict_status X (outcomes (fst s1)) ev") (auto simp: outcomes_step_def)
  show ?thesis
  proof (cases "snd ir")
    case None
    from s2 ir None have e2: "s2 = ((fst s1)\<lparr> outcomes := fst ir \<rparr>, snd s1)"
      by (simp add: outcomes_step_def)
    from s3 e2 ir i1 None have "st' = ((fst s2)\<lparr> summary := fst ir \<rparr>, snd s2)"
      by (simp add: summary_step_def)
    then show ?thesis using e2 i1 by (simp add: in_step_def)
  next
    case (Some t)
    from s2 ir Some obtain p' where p': "show_outcome X (snd s1) t = Return p'"
      "s2 = ((fst s1)\<lparr> outcomes := fst ir \<rparr>, p')"
      by (cases "show_outcome X (snd s1) t") (auto simp: outcomes_step_def)
    from s3 p' ir i1 Some obtain errs where errs: "gather_test X (errors (fst s1)) t = Return errs"
      "st' = ((fst s2)\<lparr> summary := fst ir, errors := errs \<rparr>, snd s2)"
      by (cases "gather_test X (errors (fst s1)) t") (auto simp: summary_step_def)
    from covered_step [OF i1(2) p'(1) errs(1)] show ?thesis using errs(2) p'(2)
      by (simp add: in_step_def)
  qed
qed

lemma run_events_in_step:
  "in_step st \<Longrightarrow> run_events X st evs = Return st' \<Longrightarrow> in_step st'"
proof (induction evs arbitrary: st)
  case Nil
  then show ?case by simp
next
  case (Cons ev evs)
  from Cons.prems(2) obtain s where s: "CopyStreamResult_status X st ev = Return s" "run_events X s evs = Return st'"
    by (cases "CopyStreamResult_status X st ev") auto
  from CopyStreamResult_status_in_step [OF Cons.prems(1) s(1)] Cons.IH s(2) show ?case by blast
qed

lemma stop_in_step:
  assumes "in_step st" "CopyStreamResult_stopTestRun X st = Return st'"
  shows "covered (snd st') (errors (fst st'))"
proof -
  from assms(2) obtain s1 where s1: "outcomes_stop X st = Return s1" "summary_stop X s1 = Return st'"
    by (cases "outcomes_stop X st") (auto simp: CopyStreamResult_stopTestRun_def)
  from s1(1) obtain p' where p': "show_outcomes X (snd st) (StreamToDict_leftovers (outcomes (fst st))) = Return p'"
    "s1 = ((fst st)\<lparr> outcomes := [] \<rparr>, p')"
    by (cases "show_outcomes X (snd st) (StreamToDict_leftovers (outcomes (fst st)))") (auto simp: outcomes_stop_def)
  from s1(2) p'(2) obtain errs where errs:
    "gather_tests X (errors (fst st)) (StreamToDict_leftovers (summary (fst st))) = Return errs"
    "st' = ((fst s1)\<lparr> summary := [], errors := errs \<rparr>, snd s1)"
    by (cases "gather_tests X (errors (fst st)) (StreamToDict_leftovers (summary (fst st)))")
       (auto simp: summary_stop_def)
  from assms(1) have eq: "outcomes (fst st) = summary (fst st)" and c: "covered (snd st) (errors (fst st))"
    by (simp_all add: in_step_def)
  from covered_list [OF c p'(1)] errs(1) eq have "covered p' errs" by simp
  then show ?thesis using errs(2) p'(2) by simp
qed

lemma print_attachments_loop_prefix:
  "print_attachments_loop X b (pre @ out) seen ds =
     (case print_attachments_loop X b out seen ds of
        Return od \<Rightarrow> Return (pre @ fst od, snd od) | Raised e od \<Rightarrow> Raised e (pre @ fst od, snd od))"
  by (induction X b out seen ds rule: print_attachments_loop.induct)
     (auto split: sum.splits result.splits)

lemma shifted_results:
  "shifted base q p \<Longrightarrow>
   shifted base (q\<lparr> RESULTS := results_append (RESULTS q) w t \<rparr>) (p\<lparr> RESULTS := results_append (RESULTS p) w t \<rparr>)"
  by (simp add: shifted_def bucket_results_append)

lemma shifted_stored:
  assumes "shifted base q p"
  shows "rel_result (shifted base)
           (stored q w failed t (print_attachments X (stdout q @ s) t b))
           (stored p w failed t (print_attachments X (stdout p @ s) t b))"
proof -
  have sp: "stdout p @ s = stdout base @ (stdout q @ s)" using assms by (simp add: shifted_def)
  have pre: "print_attachments X (stdout p @ s) t b =
      (case print_attachments X (stdout q @ s) t b of
         Return od \<Rightarrow> Return (stdout base @ fst od, snd od)
       | Raised e od \<Rightarrow> Raised e (stdout base @ fst od, snd od))"
    unfolding print_attachments_def sp by (rule print_attachments_loop_prefix)
  show ?thesis
    unfolding pre using assms
    by (cases "print_attachments X (stdout q @ s) t b")
       (simp_all add: shifted_def stored_state_def bucket_results_append)
qed

lemma show_outcome_shifted:
  assumes "shifted base q p"
  shows "rel_result (shifted base) (show_outcome X q t) (show_outcome X p t)"
proof (cases "t_status t = ''exists''")
  case True
  then show ?thesis using assms by (simp add: show_outcome_def)
next
  case ne: False
  show ?thesis
  proof (cases "find_worker t")
    case (Inl e)
    then show ?thesis using assms ne by (simp add: show_outcome_def)
  next
    case (Inr w)
    have s1: "shifted base (q\<lparr> RESULTS := results_append (RESULTS q) w t \<rparr>)
                           (p\<lparr> RESULTS := results_append (RESULTS p) w t \<rparr>)"
      using assms by (rule shifted_results)
    have s2: "shifted base (q\<lparr> RESULTS := results_append (RESULTS q) w t, stdout := stdout q @ s \<rparr>)
                           (p\<lparr> RESULTS := results_append (RESULTS p) w t, stdout := stdout p @ s \<rparr>)" for s
      using s1 by (simp add: shifted_def)
    show ?thesis
      using ne Inr s1 s2 shifted_stored [OF assms]
      by (simp add: show_outcome_stored split: option.splits sum.splits)
  qed
qed

lemma show_outcomes_shifted:
  "shifted base q p \<Longrightarrow> rel_result (shifted base) (show_outcomes X q ts) (show_outcomes X p ts)"
proof (induction ts arbitrary: q p)
  case Nil
  then show ?case by simp
next
  case (Cons t ts)
  from show_outcome_shifted [OF Cons.prems, of X t] Cons.IH show ?case
    by (cases "show_outcome X q t"; cases "show_outcome X p t") auto
qed

lemma Starts_content_prefix:
  "Starts_content X (pre @ out, s) ev =
     (case Starts_content X (out, s) ev of
        Return os \<Rightarrow> Return (pre @ fst os, snd os) | Raised e os \<Rightarrow> Raised e (pre @ fst os, snd os))"
  by (simp add: Starts_content_def Let_def split: option.splits sum.splits prod.splits)

lemma Starts_status_prefix:
  "Starts_status X (pre @ out, s) ev =
     (case Starts_status X (out, s) ev of
        Return os \<Rightarrow> Return (pre @ fst os, snd os) | Raised e os \<Rightarrow> Raised e (pre @ fst os, snd os))"
  by (simp add: Starts_status_def Starts_content_prefix Let_def split: option.splits)

lemma starts_step_shifted:
  assumes "shifted_run base s r"
  shows "rel_result (shifted_run base) (starts_step X ev s) (starts_step X ev r)"
proof -
  have sp: "stdout (snd r) = stdout base @ stdout (snd s)" and o: "fst r = fst s"
    using assms by (simp_all add: shifted_run_def shifted_def)
  show ?thesis
    unfolding starts_step_def sp o Starts_status_prefix
    using assms
    by (cases "Starts_status X (stdout (snd s), starts (fst s)) ev")
       (simp_all add: shifted_run_def shifted_def)
qed

lemma outcomes_step_shifted:
  assumes "shifted_run base s r"
  shows "rel_result (shifted_run base) (outcomes_step X ev s) (outcomes_step X ev r)"
proof -
  have o: "fst r = fst s" and sh: "shifted base (snd s) (snd r)"
    using assms by (simp_all add: shifted_run_def)
  show ?thesis
  proof (cases "StreamToDict_status X (outcomes (fst s)) ev")
    case (Raised e ir)
    then show ?thesis using o sh by (simp add: outcomes_step_def shifted_run_def)
  next
    case (Return ir)
    show ?thesis
    proof (cases "snd ir")
      case None
      then show ?thesis using Return o sh by (simp add: outcomes_step_def shifted_run_def)
    next
      case (Some t)
      from show_outcome_shifted [OF sh, of X t] show ?thesis
        using Return Some o
        by (cases "show_outcome X (snd s) t"; cases "show_outcome X (snd r) t")
           (simp_all add: outcomes_step_def shifted_run_def)
    qed
  qed
qed

lemma summary_step_shifted:
  assumes "shifted_run base s r"
  shows "rel_result (shifted_run base) (summary_step X ev s) (summary_step X ev r)"
  using assms
  by (simp add: summary_step_def shifted_run_def split: result.splits option.splits)

lemma bind_result_rel:
  assumes "rel_result R a b" and "\<And>x y. R x y \<Longrightarrow> rel_result R (f x) (g y)"
  shows "rel_result R (bind_result a f) (bind_result b g)"
  using assms by (cases a; cases b) auto

lemma CopyStreamResult_status_shifted:
  assumes "shifted_run base s r"
  shows "rel_result (shifted_run base) (CopyStreamResult_status X s ev) (CopyStreamResult_status X r ev)"
  unfolding CopyStreamResult_status_def
  by (intro bind_result_rel starts_step_shifted outcomes_step_shifted summary_step_shifted assms)

lemma run_events_shifted:
  "shifted_run base s r \<Longrightarrow> rel_result (shifted_run base) (run_events X s evs) (run_events X r evs)"
proof (induction evs arbitrary: s r)
  case Nil
  then show ?case by simp
next
  case (Cons ev evs)
  from CopyStreamResult_status_shifted [OF Cons.prems, of X ev] Cons.IH show ?case
    by (cases "CopyStreamResult_status X s ev"; cases "CopyStreamResult_status X r ev") auto
qed

lemma outcomes_stop_shifted:
  assumes "shifted_run base s r"
  shows "rel_result (shifted_run base) (outcomes_stop X s) (outcomes_stop X r)"
proof -
  have o: "fst r = fst s" and sh: "shifted base (snd s) (snd r)"
    using assms by (simp_all add: shifted_run_def)
  from show_outcomes_shifted [OF sh, of X "StreamToDict_leftovers (outcomes (fst s))"] show ?thesis
    using o
    by (cases "show_outcomes X (snd s) (StreamToDict_leftovers (outcomes (fst s)))";
        cases "show_outcomes X (snd r) (StreamToDict_leftovers (outcomes (fst s)))")
       (simp_all add: outcomes_stop_def shifted_run_def)
qed

lemma summary_stop_shifted:
  assumes "shifted_run base s r"
  shows "rel_result (shifted_run base) (summary_stop X s) (summary_stop X r)"
  using assms
  by (simp add: summary_stop_def shifted_run_def split: result.splits)

lemma stop_shifted:
  assumes "shifted_run base s r"
  shows "rel_result (shifted_run base) (CopyStreamResult_stopTestRun X s) (CopyStreamResult_stopTestRun X r)"
  unfolding CopyStreamResult_stopTestRun_def
  by (intro bind_result_rel outcomes_stop_shifted summary_stop_shifted assms)

lemma rel_result_state_of: "rel_result R a b \<Longrightarrow> R (state_of a) (state_of b)"
  by (cases a; cases b) auto

text \<open>The defining equations that evaluate the model on a concrete input.\<close>

lemmas model_defs = main_def CopyStreamResult_status_def CopyStreamResult_stopTestRun_def
  starts_step_def outcomes_step_def summary_step_def outcomes_stop_def summary_stop_def
  StreamToDict_status_def StreamToDict_leftovers_def add_file_def gather_test_def wasSuccessful_def
  Starts_status_def Starts_content_def Starts_startTestRun_def start_worker_def startswith_def
  show_outcome_def alias_record_def set_last_def find_worker_def results_append_def bucket_def stream_write_def
  print_attachments_def cleanup_test_name_def get_duration_def datetime_sub_def DAY_SECONDS_def
  fmt_d_def fmt_06d_def str_nat.simps py_int_def py_strip_def py_space_def is_digit_def
  dec_value_def digit_val_def dict_del_def trim_charset_def retype_def channel_def attachment_block_def
  status_defaults_def start_event_def success_event_def fail_event_def returncode_event_def
  fresh_process_def plain_ext_def example_test_def

subsection \<open>Claims about the Start Tracker\<close>

text \<open>
  C8. Over a whole run of the Start Tracker (\<open>startTestRun\<close>, then any sequence of
  events, whether or not it ends in an exception), the output holds at most one start
  line for each test identifier, with or without timestamps on the events.
\<close>

theorem Starts_at_most_one_start_line:
  "length (filter (is_start i)
     (fst (state_of (Starts_run X ([], Starts_startTestRun) evs)))) \<le> 1"
proof -
  have "starts_inv ([], Starts_startTestRun)"
    by (simp add: starts_inv_def start_count_def Starts_startTestRun_def)
  then have a: "starts_inv (state_of (Starts_run X ([], Starts_startTestRun) evs))"
    by (rule Starts_run_inv)
  have "start_count i (fst (state_of (Starts_run X ([], Starts_startTestRun) evs)))
        \<le> (if i \<in> emitted (snd (state_of (Starts_run X ([], Starts_startTestRun) evs))) then 1 else 0)"
    using a unfolding starts_inv_def by blast
  then have "start_count i (fst (state_of (Starts_run X ([], Starts_startTestRun) evs))) \<le> 1"
    by (simp split: if_splits)
  then show ?thesis by (simp add: start_count_def)
qed

text \<open>
  Three \<open>inprogress\<close> events for \<open>test_a\<close>, two without and one with a timestamp, and
  the \<open>success\<close> event: one start line.
\<close>

theorem Starts_at_most_one_start_line_witness:
  "fst (state_of (Starts_run plain_ext ([], Starts_startTestRun)
      [start_event\<lparr> timestamp := None \<rparr>, start_event\<lparr> timestamp := None \<rparr>, start_event, success_event]))
     = [StartLine '''' ''(0) '' ''test_a''] \<and>
   length (filter (is_start ''test_a'')
     (fst (state_of (Starts_run plain_ext ([], Starts_startTestRun)
      [start_event\<lparr> timestamp := None \<rparr>, start_event\<lparr> timestamp := None \<rparr>, start_event, success_event]))))
     \<le> 1"
proof -
  have "fst (state_of (Starts_run plain_ext ([], Starts_startTestRun)
      [start_event\<lparr> timestamp := None \<rparr>, start_event\<lparr> timestamp := None \<rparr>, start_event, success_event]))
     = [StartLine '''' ''(0) '' ''test_a'']"
    by (simp add: model_defs)
  then show ?thesis
    using Starts_at_most_one_start_line [of "''test_a''" plain_ext
      "[start_event\<lparr> timestamp := None \<rparr>, start_event\<lparr> timestamp := None \<rparr>, start_event, success_event]"]
    by simp
qed

text \<open>
  C1. The claim asks for a start line with the ISO timestamp as prefix when the event
  carries a timestamp. The code at that input: the \<open>inprogress\<close> event of \<open>test_a\<close> on
  worker 0 with a timestamp writes nothing and only marks the identifier as emitted;
  the same event without a timestamp writes the start line with an empty prefix. On the
  two events of the end-to-end scenario, which carry timestamps, the tracker writes
  nothing at all.
\<close>

theorem Starts_timestamp_drops_start_line:
  "Starts_status X ([], Starts_startTestRun) start_event
     = Return ([], \<lparr>neednewline = False, emitted = {''test_a''}\<rparr>) \<and>
   Starts_status X ([], Starts_startTestRun) (start_event\<lparr> timestamp := None \<rparr>)
     = Return ([StartLine '''' ''(0) '' ''test_a''], \<lparr>neednewline = False, emitted = {''test_a''}\<rparr>) \<and>
   render (StartLine '''' ''(0) '' ''test_a'') = '': (0) test_a [start]'' @ [CHR 0x0A] \<and>
   Starts_run X ([], Starts_startTestRun) [start_event, success_event]
     = Return ([], \<lparr>neednewline = False, emitted = {''test_a''}\<rparr>)"
proof -
  have a: "Starts_status X ([], Starts_startTestRun) start_event
     = Return ([], \<lparr>neednewline = False, emitted = {''test_a''}\<rparr>)"
    by (simp add: Starts_status_def Starts_startTestRun_def start_event_def status_defaults_def
          start_worker_def startswith_def)
  have b: "Starts_status X ([], Starts_startTestRun) (start_event\<lparr> timestamp := None \<rparr>)
     = Return ([StartLine '''' ''(0) '' ''test_a''], \<lparr>neednewline = False, emitted = {''test_a''}\<rparr>)"
    by (simp add: Starts_status_def Starts_startTestRun_def start_event_def status_defaults_def
          start_worker_def startswith_def)
  have c: "Starts_status X ([], \<lparr>neednewline = False, emitted = {''test_a''}\<rparr>) success_event
     = Return ([], \<lparr>neednewline = False, emitted = {''test_a''}\<rparr>)"
    by (simp add: Starts_status_def success_event_def status_defaults_def)
  show ?thesis using b by (simp add: a c)
qed

subsection \<open>Claims about the Outcome Aggregator\<close>

text \<open>
  C3, as the code has it. A record with status \<open>exists\<close> changes nothing. A record whose
  name after tag stripping is \<open>process-returncode\<close> is left out of the printing and of
  the failure list, but it is put into its worker's bucket like any other. So when the
  aggregator has processed N records without raising, starting from empty tallies, the
  sizes of the per-worker buckets add up to N minus the number of records with status
  \<open>exists\<close>.
\<close>

theorem bucket_sizes_count_all_but_exists:
  "(show_outcomes X fresh_process ts = Return p' \<longrightarrow>
      bucket_total (RESULTS p') = length ts - length (filter (\<lambda>t. t_status t = ''exists'') ts)) \<and>
   (t_status t = ''exists'' \<longrightarrow> show_outcome X p t = Return p) \<and>
   (t_status t \<noteq> ''exists'' \<and> find_worker t = Inr w \<and>
    cleanup_test_name (t_id t) True False = ''process-returncode'' \<longrightarrow>
      show_outcome X p t = Return (p\<lparr> RESULTS := results_append (RESULTS p) w t \<rparr>))"
proof -
  have "bucket_total (RESULTS p') = length ts - length (filter (\<lambda>t. t_status t = ''exists'') ts)"
    if r: "show_outcomes X fresh_process ts = Return p'"
  proof -
    have "length ts = length (filter (\<lambda>t. t_status t = ''exists'') ts)
                      + length (filter (\<lambda>t. t_status t \<noteq> ''exists'') ts)"
      using sum_length_filter_compl [of "\<lambda>t. t_status t = ''exists''" ts] by simp
    then show ?thesis
      using show_outcomes_total [OF r] by (simp add: fresh_process_def bucket_total_def)
  qed
  moreover have "t_status t = ''exists'' \<longrightarrow> show_outcome X p t = Return p"
    by (simp add: show_outcome_def)
  moreover have "t_status t \<noteq> ''exists'' \<and> find_worker t = Inr w \<and>
      cleanup_test_name (t_id t) True False = ''process-returncode'' \<longrightarrow>
      show_outcome X p t = Return (p\<lparr> RESULTS := results_append (RESULTS p) w t \<rparr>)"
    by (simp add: show_outcome_def)
  ultimately show ?thesis by blast
qed

text \<open>
  Three records: a success, an \<open>exists\<close> and a \<open>process-returncode\<close>. Two of them are in
  the buckets, and only the success is printed.
\<close>

theorem bucket_sizes_count_all_but_exists_witness:
  "show_outcomes plain_ext fresh_process
     [example_test, example_test\<lparr> t_status := ''exists'' \<rparr>, returncode_record]
   = Return \<lparr> stdout = [Text (''{0} test_a [1.000000s] ... ok'' @ [CHR 0x0A])], FAILS = [],
        RESULTS = [(Worker 0, [example_test]), (NaN, [returncode_record])] \<rparr> \<and>
   bucket_total [(Worker 0, [example_test]), (NaN, [returncode_record])] = 3 - 1 \<and>
   show_outcome plain_ext fresh_process (example_test\<lparr> t_status := ''exists'' \<rparr>) = Return fresh_process \<and>
   show_outcome plain_ext fresh_process returncode_record
     = Return (fresh_process\<lparr> RESULTS := [(NaN, [returncode_record])] \<rparr>)"
proof -
  have e: "show_outcomes plain_ext fresh_process
     [example_test, example_test\<lparr> t_status := ''exists'' \<rparr>, returncode_record]
   = Return \<lparr> stdout = [Text (''{0} test_a [1.000000s] ... ok'' @ [CHR 0x0A])], FAILS = [],
        RESULTS = [(Worker 0, [example_test]), (NaN, [returncode_record])] \<rparr>"
    by (simp add: model_defs returncode_record_def Let_def replicate5)
  have x: "t_status (example_test\<lparr> t_status := ''exists'' \<rparr>) = ''exists''" by simp
  have r: "t_status returncode_record \<noteq> ''exists'' \<and> find_worker returncode_record = Inr NaN \<and>
      cleanup_test_name (t_id returncode_record) True False = ''process-returncode''"
    by (simp add: returncode_record_def find_worker_def cleanup_test_name_def)
  have u: "bucket_total (RESULTS \<lparr> stdout = [Text (''{0} test_a [1.000000s] ... ok'' @ [CHR 0x0A])], FAILS = [],
        RESULTS = [(Worker 0, [example_test]), (NaN, [returncode_record])] \<rparr>)
      = length [example_test, example_test\<lparr> t_status := ''exists'' \<rparr>, returncode_record]
        - length (filter (\<lambda>t. t_status t = ''exists'')
            [example_test, example_test\<lparr> t_status := ''exists'' \<rparr>, returncode_record])"
    using e bucket_sizes_count_all_but_exists
      [of plain_ext "[example_test, example_test\<lparr> t_status := ''exists'' \<rparr>, returncode_record]"]
    by blast
  have v: "show_outcome plain_ext fresh_process (example_test\<lparr> t_status := ''exists'' \<rparr>) = Return fresh_process"
    using x bucket_sizes_count_all_but_exists [where t = "example_test\<lparr> t_status := ''exists'' \<rparr>"]
    by blast
  have w: "show_outcome plain_ext fresh_process returncode_record
     = Return (fresh_process\<lparr> RESULTS := results_append (RESULTS fresh_process) NaN returncode_record \<rparr>)"
    using r bucket_sizes_count_all_but_exists [where t = returncode_record and w = NaN]
    by blast
  have w': "results_append (RESULTS fresh_process) NaN returncode_record = [(NaN, [returncode_record])]"
    by (simp add: results_append_def bucket_def fresh_process_def)
  have t: "bucket_total [(Worker 0, [example_test]), (NaN, [returncode_record])] = 3 - 1"
    using u by (simp add: example_test_def returncode_record_def)
  show ?thesis using e t v w w' by simp
qed

text \<open>
  C3 as the specification words it fails: one record, a \<open>process-returncode\<close>; the claim
  gives 1 - 1 = 0 for the sum of the bucket sizes, the code has one record in the
  bucket of the unassigned worker.
\<close>

theorem bucket_sizes_counterexample:
  "t_id returncode_record = ''process-returncode'' \<and>
   show_outcomes plain_ext fresh_process [returncode_record]
     = Return \<lparr> stdout = [], FAILS = [], RESULTS = [(NaN, [returncode_record])] \<rparr> \<and>
   bucket_total [(NaN, [returncode_record])] = 1 \<and>
   bucket_total [(NaN, [returncode_record])] \<noteq> length [returncode_record] - 1"
  by (simp add: model_defs returncode_record_def bucket_total_def)







subsection \<open>Claims about the Run Driver\<close>

text \<open>
  C2, as the code has it. The exit status is the verdict of the \<open>StreamSummary\<close>
  observer, and 1 when an exception leaves \<open>main\<close>; \<open>FAILS\<close> is not read. The exit
  status is 0 or 1, and it is 0 exactly when no exception leaves \<open>main\<close> and the summary
  has no error. In a process whose failure list is empty when \<open>main\<close> starts, an exit
  status 0 comes with an empty failure list at the end of the stream, and a failure list
  that is not empty gives 1.
\<close>

theorem main_exit_status:
  assumes "main X p evs = (code, obs, p')"
  shows "(code = 0 \<or> code = 1) \<and>
         (code = 0 \<longleftrightarrow> \<not> main_raised X p evs \<and> wasSuccessful obs) \<and>
         (wasSuccessful obs \<longleftrightarrow> errors obs = []) \<and>
         (FAILS p = [] \<and> code = 0 \<longrightarrow> FAILS p' = []) \<and>
         (FAILS p = [] \<and> FAILS p' \<noteq> [] \<longrightarrow> code = 1)"
proof -
  let ?st0 = "(\<lparr> starts = Starts_startTestRun, outcomes = [], summary = [], errors = [] \<rparr>, p)"
  have range: "code = 0 \<or> code = 1"
    using assms by (auto simp: main_def Let_def split: result.splits if_splits)
  have iff: "code = 0 \<longleftrightarrow> \<not> main_raised X p evs \<and> wasSuccessful obs"
    using assms by (auto simp: main_def main_raised_def Let_def split: result.splits if_splits)
  have "FAILS p' = []" if z: "code = 0" and e: "FAILS p = []"
  proof -
    have i0: "in_step ?st0" using e by (simp add: in_step_def covered_def)
    from assms z obtain st1 where st1: "run_events X ?st0 evs = Return st1"
      by (cases "run_events X ?st0 evs") (auto simp: main_def Let_def)
    from assms z st1 obtain st2 where st2: "CopyStreamResult_stopTestRun X st1 = Return st2"
      by (cases "CopyStreamResult_stopTestRun X st1") (auto simp: main_def Let_def)
    from assms z st1 st2 have fin: "wasSuccessful (fst st2)" "st2 = (obs, p')"
      by (auto simp: main_def Let_def split: if_splits)
    from run_events_in_step [OF i0 st1] have "in_step st1" .
    from stop_in_step [OF this st2] fin show ?thesis by (simp add: covered_def wasSuccessful_def)
  qed
  then show ?thesis using range iff by (auto simp: wasSuccessful_def)
qed

text \<open>
  The two end-to-end scenarios: the run of \<open>test_a\<close> exits with 0 and an empty failure
  list, the failing \<open>test_b\<close> is in the failure list and the run exits with 1. A
  successful \<open>test_a\<close> with the tag \<open>worker-abc\<close> makes the aggregator raise: the summary
  has no error, and the run exits with 1.
\<close>

theorem main_exit_status_witness:
  "FAILS fresh_process = [] \<and>
   \<not> main_raised plain_ext fresh_process [start_event, success_event] \<and>
   wasSuccessful (fst (snd (main plain_ext fresh_process [start_event, success_event]))) \<and>
   fst (main plain_ext fresh_process [start_event, success_event]) = 0 \<and>
   FAILS (snd (snd (main plain_ext fresh_process [start_event, success_event]))) = [] \<and>
   \<not> main_raised plain_ext fresh_process [fail_event] \<and>
   \<not> wasSuccessful (fst (snd (main plain_ext fresh_process [fail_event]))) \<and>
   FAILS (snd (snd (main plain_ext fresh_process [fail_event]))) \<noteq> [] \<and>
   fst (main plain_ext fresh_process [fail_event]) = 1 \<and>
   main_raised plain_ext fresh_process [success_event\<lparr> test_tags := Some [''worker-abc''] \<rparr>] \<and>
   wasSuccessful (fst (snd (main plain_ext fresh_process [success_event\<lparr> test_tags := Some [''worker-abc''] \<rparr>]))) \<and>
   fst (main plain_ext fresh_process [success_event\<lparr> test_tags := Some [''worker-abc''] \<rparr>]) = 1"
proof -
  have f: "FAILS fresh_process = []" by (simp add: fresh_process_def)
  have a: "\<not> main_raised plain_ext fresh_process [start_event, success_event]"
    by (simp add: main_raised_def model_defs Let_def replicate5)
  have a': "wasSuccessful (fst (snd (main plain_ext fresh_process [start_event, success_event])))"
    by (simp add: model_defs Let_def replicate5)
  have b: "\<not> main_raised plain_ext fresh_process [fail_event]"
    by (simp add: main_raised_def model_defs Let_def)
  have b': "FAILS (snd (snd (main plain_ext fresh_process [fail_event]))) \<noteq> []"
    by (simp add: model_defs Let_def)
  have c: "main_raised plain_ext fresh_process [success_event\<lparr> test_tags := Some [''worker-abc''] \<rparr>]"
    by (simp add: main_raised_def model_defs Let_def)
  have c': "wasSuccessful (fst (snd (main plain_ext fresh_process [success_event\<lparr> test_tags := Some [''worker-abc''] \<rparr>])))"
    by (simp add: model_defs Let_def)
  have e1: "main plain_ext fresh_process [start_event, success_event] =
      (fst (main plain_ext fresh_process [start_event, success_event]),
       fst (snd (main plain_ext fresh_process [start_event, success_event])),
       snd (snd (main plain_ext fresh_process [start_event, success_event])))"
    by simp
  have e2: "main plain_ext fresh_process [fail_event] =
      (fst (main plain_ext fresh_process [fail_event]),
       fst (snd (main plain_ext fresh_process [fail_event])),
       snd (snd (main plain_ext fresh_process [fail_event])))"
    by simp
  have e3: "main plain_ext fresh_process [success_event\<lparr> test_tags := Some [''worker-abc''] \<rparr>] =
      (fst (main plain_ext fresh_process [success_event\<lparr> test_tags := Some [''worker-abc''] \<rparr>]),
       fst (snd (main plain_ext fresh_process [success_event\<lparr> test_tags := Some [''worker-abc''] \<rparr>])),
       snd (snd (main plain_ext fresh_process [success_event\<lparr> test_tags := Some [''worker-abc''] \<rparr>])))"
    by simp
  show ?thesis
    using f a a' b b' c c' main_exit_status [OF e1] main_exit_status [OF e2] main_exit_status [OF e3]
    by blast
qed

text \<open>
  C2 as the specification words it fails: a stream whose only event is the failing
  \<open>process-returncode\<close> leaves the failure list empty, and the exit status is 1.
\<close>

theorem main_exit_status_counterexample:
  "FAILS (snd (snd (main plain_ext fresh_process [returncode_event]))) = [] \<and>
   fst (main plain_ext fresh_process [returncode_event]) = 1"
  by (simp add: model_defs Let_def)

text \<open>
  C9, as the code has it. \<open>FAILS\<close> and \<open>RESULTS\<close> are module-level variables that \<open>main\<close>
  never resets. A run that starts in a process state \<open>p\<close> left by earlier runs has the
  exit status and the observers of the same run in a fresh process, and writes the same
  output after what was written before; its failure list and each of its buckets are
  those of \<open>p\<close> followed by those of the fresh run.
\<close>

theorem main_tallies_accumulate:
  "fst (main X p evs) = fst (main X fresh_process evs) \<and>
   fst (snd (main X p evs)) = fst (snd (main X fresh_process evs)) \<and>
   shifted p (snd (snd (main X fresh_process evs))) (snd (snd (main X p evs)))"
proof -
  let ?o = "\<lparr> starts = Starts_startTestRun, outcomes = [], summary = [], errors = [] \<rparr>"
  have s0: "shifted_run p (?o, fresh_process) (?o, p)"
    by (simp add: shifted_run_def shifted_def fresh_process_def bucket_def)
  have r: "rel_result (shifted_run p) (run_events X (?o, fresh_process) evs) (run_events X (?o, p) evs)"
    using s0 by (rule run_events_shifted)
  have m: "fst (main X p evs) = fst (main X fresh_process evs) \<and>
           shifted_run p (snd (main X fresh_process evs)) (snd (main X p evs))"
  proof (cases "run_events X (?o, fresh_process) evs")
    case (Raised e s1)
    with r obtain r1 where r1: "run_events X (?o, p) evs = Raised e r1" "shifted_run p s1 r1"
      by (cases "run_events X (?o, p) evs") auto
    from rel_result_state_of [OF stop_shifted [OF r1(2), of X]] show ?thesis
      using Raised r1(1) by (simp add: main_def)
  next
    case (Return s1)
    with r obtain r1 where r1: "run_events X (?o, p) evs = Return r1" "shifted_run p s1 r1"
      by (cases "run_events X (?o, p) evs") auto
    from stop_shifted [OF r1(2), of X] show ?thesis
      using Return r1(1)
      by (cases "CopyStreamResult_stopTestRun X s1"; cases "CopyStreamResult_stopTestRun X r1")
         (auto simp: main_def shifted_run_def)
  qed
  then show ?thesis by (simp add: shifted_run_def)
qed

text \<open>
  The run of \<open>test_a\<close> after the run of the failing \<open>test_b\<close> in the same process: exit
  status 0 as in a fresh process, and the failure list of the first run is still there.
\<close>

theorem main_tallies_accumulate_witness:
  "fst (main plain_ext (snd (snd (main plain_ext fresh_process [fail_event]))) [start_event, success_event])
     = fst (main plain_ext fresh_process [start_event, success_event]) \<and>
   FAILS (snd (snd (main plain_ext (snd (snd (main plain_ext fresh_process [fail_event])))
       [start_event, success_event])))
     = FAILS (snd (snd (main plain_ext fresh_process [fail_event]))) @
       FAILS (snd (snd (main plain_ext fresh_process [start_event, success_event])))"
  using main_tallies_accumulate [of plain_ext "snd (snd (main plain_ext fresh_process [fail_event]))"
      "[start_event, success_event]"]
  by (simp add: shifted_def)

text \<open>
  C9 as the specification words it fails: after a first run with the failing \<open>test_b\<close>,
  a second run on an empty stream ends with that record in the failure list and in the
  buckets, while the same run in a fresh process ends with both empty.
\<close>

theorem main_tallies_counterexample:
  "FAILS (snd (snd (main plain_ext (snd (snd (main plain_ext fresh_process [fail_event]))) []))) \<noteq>
     FAILS (snd (snd (main plain_ext fresh_process []))) \<and>
   RESULTS (snd (snd (main plain_ext (snd (snd (main plain_ext fresh_process [fail_event]))) []))) \<noteq>
     RESULTS (snd (snd (main plain_ext fresh_process []))) \<and>
   FAILS (snd (snd (main plain_ext fresh_process []))) = [] \<and>
   RESULTS (snd (snd (main plain_ext fresh_process []))) = []"
  by (simp add: model_defs Let_def)

end
